theory Spec2Isabelle
  imports Main "HOL-Library.Word" "HOL-Library.Multiset"
begin

section \<open>The video splitter display (modules/video_output/splitter.c)\<close>

text \<open>
  The module drives one display per output of a video splitter. Its collaborators (the
  splitter engine, the per-part displays, the windows, pictures, mutex and semaphores)
  live outside the file; they appear here as handles, as functions collected in an
  environment record, and as entries of a call log that every operation appends to.
\<close>

subsection \<open>Data\<close>

type_synonym picture_t = nat
type_synonym vout_display_t = nat
type_synonym vlc_window_t = nat

text \<open>Modelled from the spec: the content of a \<open>vlc_window_mouse_event_t\<close>, which is
  declared outside the file: a pointer event with a kind and the coordinates that the
  splitter maps between the composite and a part. The file only copies the structure
  whole and passes pointers to it.\<close>

record vlc_window_mouse_event_t =
  ev_type :: nat
  ev_x :: int
  ev_y :: int

text \<open>\<open>struct vlc_vidsplit_part\<close>; a null pointer is \<open>None\<close>, the semaphore is its count.\<close>

record vlc_vidsplit_part =
  window :: "vlc_window_t option"
  display :: "vout_display_t option"
  lock :: nat
  width :: "32 word"
  height :: "32 word"

text \<open>Modelled from the spec: the orientations of a video format, declared outside the
  file; only \<open>ORIENT_NORMAL\<close> is named in it.\<close>

datatype video_orientation_t = ORIENT_NORMAL | ORIENT_OTHER nat

text \<open>Calls into collaborators and accesses to the \<open>pictures\<close> array, in program order.
  \<open>ModuleNeed\<close> keeps the orientation of \<open>splitter->fmt\<close> that the splitter module is
  loaded with.\<close>

datatype event =
    PictureHold picture_t
  | MutexLock
  | MutexUnlock
  | SplitterFilter picture_t
  | SlotLoad nat
  | SlotStore nat
  | SemWait nat
  | SemPost nat
  | DisplayPrepare nat "vout_display_t option" "picture_t option"
  | DisplayDisplay nat "vout_display_t option" picture_t
  | PictureRelease picture_t
  | DisplayDelete vout_display_t
  | DisplaySetSize vout_display_t "32 word" "32 word"
  | WindowDisable "vlc_window_t option"
  | WindowDelete "vlc_window_t option"
  | AckCallback nat "32 word" "32 word" vlc_vidsplit_part
  | SplitterMouse nat vlc_window_mouse_event_t
  | WindowSendMouseEvent vlc_window_mouse_event_t
  | WindowReportKeyPress "32 word"
  | ModuleNeed video_orientation_t
  | ModuleUnneed
  | FormatClean
  | ObjectDelete
  | WindowNew nat "vlc_window_t option"
  | WindowEnable vlc_window_t int
  | DisplayNew nat "vlc_window_t option" "32 word" "32 word" "vout_display_t option"

text \<open>
  \<open>vout_display_sys_t\<close>. \<open>i_output\<close> and \<open>fmt\<close> are \<open>sys->splitter.i_output\<close> and the
  orientation of \<open>sys->splitter.fmt\<close>; \<open>sys_lock\<close> is the mutex \<open>sys->lock\<close> (true while
  it is taken); \<open>log\<close> is the call log.
\<close>

record vout_display_sys_t =
  i_output :: int
  fmt :: video_orientation_t
  sys_lock :: bool
  pictures :: "picture_t option list"
  parts :: "vlc_vidsplit_part list"
  log :: "event list"

text \<open>
  What the collaborators answer. \<open>filter_rc\<close>/\<open>filter_out\<close>: the return value of
  \<open>video_splitter_Filter\<close> for a picture and what it leaves in each output slot;
  \<open>display_Prepare\<close>: the picture \<open>vout_display_Prepare\<close> returns; \<open>splitter_Mouse\<close>: the
  return value of \<open>video_splitter_Mouse\<close> and the event structure as it leaves it.
\<close>

record env =
  filter_rc :: "picture_t \<Rightarrow> int"
  filter_out :: "picture_t \<Rightarrow> nat \<Rightarrow> picture_t option"
  display_Prepare :: "vout_display_t option \<Rightarrow> picture_t option \<Rightarrow> picture_t option"
  splitter_Mouse :: "nat \<Rightarrow> vlc_window_mouse_event_t \<Rightarrow> int \<times> vlc_window_mouse_event_t"

text \<open>
  An operation either returns, or it does not: \<open>Blocked\<close> when it waits on a mutex or a
  semaphore that nobody in this execution will release, \<open>OutOfBounds\<close> when it indexes
  \<open>parts\<close> or \<open>pictures\<close> past the allocated length.
\<close>

datatype stop = Blocked | OutOfBounds

text \<open>Modelled from the spec: the value of \<open>VLC_SUCCESS\<close>, which is defined outside the
  file. The engine reports success or failure; \<open>vlc_vidsplit_Prepare\<close> takes any nonzero
  result of the filter for the failure, so success is zero.\<close>

definition VLC_SUCCESS :: int where
  "VLC_SUCCESS = 0"

subsection \<open>Primitives\<close>

definition emit :: "event \<Rightarrow> vout_display_sys_t \<Rightarrow> vout_display_sys_t" where
  "emit e s = s\<lparr>log := log s @ [e]\<rparr>"

definition vlc_mutex_lock :: "vout_display_sys_t \<Rightarrow> stop + vout_display_sys_t" where
  "vlc_mutex_lock s =
     (if sys_lock s then Inl Blocked else Inr (emit MutexLock (s\<lparr>sys_lock := True\<rparr>)))"

definition vlc_mutex_unlock :: "vout_display_sys_t \<Rightarrow> vout_display_sys_t" where
  "vlc_mutex_unlock s = emit MutexUnlock (s\<lparr>sys_lock := False\<rparr>)"

definition vlc_sem_wait :: "nat \<Rightarrow> vout_display_sys_t \<Rightarrow> stop + vout_display_sys_t" where
  "vlc_sem_wait i s =
     (if length (parts s) \<le> i then Inl OutOfBounds
      else if lock (parts s ! i) = 0 then Inl Blocked
      else Inr (emit (SemWait i)
             (s\<lparr>parts := (parts s)[i := (parts s ! i)\<lparr>lock := lock (parts s ! i) - 1\<rparr>]\<rparr>)))"

definition vlc_sem_post :: "nat \<Rightarrow> vout_display_sys_t \<Rightarrow> stop + vout_display_sys_t" where
  "vlc_sem_post i s =
     (if length (parts s) \<le> i then Inl OutOfBounds
      else Inr (emit (SemPost i)
             (s\<lparr>parts := (parts s)[i := (parts s ! i)\<lparr>lock := lock (parts s ! i) + 1\<rparr>]\<rparr>)))"

text \<open>\<open>sys->pictures[i] = v\<close> and the read of \<open>sys->pictures[i]\<close>.\<close>

definition store_slot ::
  "nat \<Rightarrow> picture_t option \<Rightarrow> vout_display_sys_t \<Rightarrow> stop + vout_display_sys_t" where
  "store_slot i v s =
     (if length (pictures s) \<le> i then Inl OutOfBounds
      else Inr (emit (SlotStore i) (s\<lparr>pictures := (pictures s)[i := v]\<rparr>)))"

definition load_slot ::
  "nat \<Rightarrow> vout_display_sys_t \<Rightarrow> stop + (picture_t option \<times> vout_display_sys_t)" where
  "load_slot i s =
     (if length (pictures s) \<le> i then Inl OutOfBounds
      else Inr (pictures s ! i, emit (SlotLoad i) s))"

text \<open>\<open>video_splitter_Filter(&sys->splitter, sys->pictures, pic)\<close>: the engine writes the
  output slots and returns its code.\<close>

definition video_splitter_Filter ::
  "env \<Rightarrow> picture_t \<Rightarrow> vout_display_sys_t \<Rightarrow> int \<times> vout_display_sys_t" where
  "video_splitter_Filter env pic s =
     (filter_rc env pic,
      emit (SplitterFilter pic)
        (s\<lparr>pictures := map (filter_out env pic) [0..<length (pictures s)]\<rparr>))"

subsection \<open>The render cycle\<close>

text \<open>The loop of the failure branch: \<open>for (i = 0; i < i_output; i++) pictures[i] = NULL\<close>.\<close>

function clear_loop :: "nat \<Rightarrow> vout_display_sys_t \<Rightarrow> stop + vout_display_sys_t" where
  "clear_loop i s =
     (if int i < i_output s then
        (case store_slot i None s of
           Inl e \<Rightarrow> Inl e
         | Inr s1 \<Rightarrow> clear_loop (i + 1) s1)
      else Inr s)"
  by pat_completeness auto
termination
  by (relation "measure (\<lambda>(i, s). nat (i_output s) - i)")
     (auto simp: store_slot_def emit_def split: if_splits)

text \<open>The loop of the success branch: wait on the part's semaphore, then
  \<open>pictures[i] = vout_display_Prepare(part->display, pictures[i], NULL, date)\<close>.\<close>

definition prepare_part :: "env \<Rightarrow> nat \<Rightarrow> vout_display_sys_t \<Rightarrow> stop + vout_display_sys_t" where
  "prepare_part env i s =
     (case vlc_sem_wait i s of
        Inl e \<Rightarrow> Inl e
      | Inr s1 \<Rightarrow>
          (case load_slot i s1 of
             Inl e \<Rightarrow> Inl e
           | Inr (p, s2) \<Rightarrow>
               store_slot i (display_Prepare env (display (parts s2 ! i)) p)
                 (emit (DisplayPrepare i (display (parts s2 ! i)) p) s2)))"

function prepare_loop :: "env \<Rightarrow> nat \<Rightarrow> vout_display_sys_t \<Rightarrow> stop + vout_display_sys_t" where
  "prepare_loop env i s =
     (if int i < i_output s then
        (case prepare_part env i s of
           Inl e \<Rightarrow> Inl e
         | Inr s1 \<Rightarrow> prepare_loop env (i + 1) s1)
      else Inr s)"
  by pat_completeness auto
termination
  by (relation "measure (\<lambda>(env, i, s). nat (i_output s) - i)")
     (auto simp: prepare_part_def vlc_sem_wait_def load_slot_def store_slot_def emit_def
           split: if_splits sum.splits prod.splits)

definition vlc_vidsplit_Prepare ::
  "env \<Rightarrow> picture_t \<Rightarrow> vout_display_sys_t \<Rightarrow> stop + vout_display_sys_t" where
  "vlc_vidsplit_Prepare env pic s =
     (case vlc_mutex_lock (emit (PictureHold pic) s) of
        Inl e \<Rightarrow> Inl e
      | Inr s1 \<Rightarrow>
          (case video_splitter_Filter env pic s1 of
             (rc, s2) \<Rightarrow>
               if rc \<noteq> 0 then clear_loop 0 (vlc_mutex_unlock s2)
               else prepare_loop env 0 (vlc_mutex_unlock s2)))"

text \<open>\<open>vlc_vidsplit_Display\<close>: show and release every picture that is there, post every
  part's semaphore.\<close>

definition display_part :: "nat \<Rightarrow> vout_display_sys_t \<Rightarrow> stop + vout_display_sys_t" where
  "display_part i s =
     (if length (parts s) \<le> i then Inl OutOfBounds
      else
        (case load_slot i s of
           Inl e \<Rightarrow> Inl e
         | Inr (p, s1) \<Rightarrow>
             (case p of
                None \<Rightarrow> vlc_sem_post i s1
              | Some pic \<Rightarrow>
                  vlc_sem_post i
                    (emit (PictureRelease pic)
                       (emit (DisplayDisplay i (display (parts s1 ! i)) pic) s1)))))"

function display_loop :: "nat \<Rightarrow> vout_display_sys_t \<Rightarrow> stop + vout_display_sys_t" where
  "display_loop i s =
     (if int i < i_output s then
        (case display_part i s of
           Inl e \<Rightarrow> Inl e
         | Inr s1 \<Rightarrow> display_loop (i + 1) s1)
      else Inr s)"
  by pat_completeness auto
termination
  by (relation "measure (\<lambda>(i, s). nat (i_output s) - i)")
     (auto simp: display_part_def vlc_sem_post_def load_slot_def emit_def
           split: if_splits sum.splits prod.splits option.splits)

definition vlc_vidsplit_Display :: "vout_display_sys_t \<Rightarrow> stop + vout_display_sys_t" where
  "vlc_vidsplit_Display s = display_loop 0 s"

subsection \<open>Teardown\<close>

text \<open>One round of the loop of \<open>vlc_vidsplit_Close\<close>: take and clear the display under the
  semaphore, delete it afterwards if there was one, then disable and delete the window.\<close>

definition close_part :: "nat \<Rightarrow> vout_display_sys_t \<Rightarrow> stop + vout_display_sys_t" where
  "close_part i s =
     (case vlc_sem_wait i s of
        Inl e \<Rightarrow> Inl e
      | Inr s1 \<Rightarrow>
          (case vlc_sem_post i (s1\<lparr>parts := (parts s1)[i := (parts s1 ! i)\<lparr>display := None\<rparr>]\<rparr>) of
             Inl e \<Rightarrow> Inl e
           | Inr s2 \<Rightarrow>
               (let s3 = (case display (parts s1 ! i) of
                            None \<Rightarrow> s2
                          | Some d \<Rightarrow> emit (DisplayDelete d) s2)
                in Inr (emit (WindowDelete (window (parts s3 ! i)))
                         (emit (WindowDisable (window (parts s3 ! i))) s3)))))"

function close_loop :: "nat \<Rightarrow> nat \<Rightarrow> vout_display_sys_t \<Rightarrow> stop + vout_display_sys_t" where
  "close_loop n i s =
     (if i < n then
        (case close_part i s of
           Inl e \<Rightarrow> Inl e
         | Inr s1 \<Rightarrow> close_loop n (i + 1) s1)
      else Inr s)"
  by pat_completeness auto
termination
  by (relation "measure (\<lambda>(n, i, s). n - i)") auto

definition vlc_vidsplit_Close :: "vout_display_sys_t \<Rightarrow> stop + vout_display_sys_t" where
  "vlc_vidsplit_Close s =
     (case close_loop (nat (i_output s)) 0 s of
        Inl e \<Rightarrow> Inl e
      | Inr s1 \<Rightarrow> Inr (emit ObjectDelete (emit FormatClean (emit ModuleUnneed s1))))"

subsection \<open>Window callbacks\<close>

text \<open>The part a window belongs to (\<open>wnd->owner.sys\<close>) is given by its index in \<open>parts\<close>;
  \<open>cb\<close> tells whether the acknowledgement callback is non-null. The callback is handed the
  window, so the log keeps the part as it is when the callback runs.\<close>

definition vlc_vidsplit_window_Resized ::
  "nat \<Rightarrow> 32 word \<Rightarrow> 32 word \<Rightarrow> bool \<Rightarrow> vout_display_sys_t \<Rightarrow> stop + vout_display_sys_t" where
  "vlc_vidsplit_window_Resized i w h cb s =
     (case vlc_sem_wait i s of
        Inl e \<Rightarrow> Inl e
      | Inr s1 \<Rightarrow>
          (let s2 = s1\<lparr>parts := (parts s1)[i := (parts s1 ! i)\<lparr>width := w, height := h\<rparr>]\<rparr>;
               s3 = (case display (parts s2 ! i) of
                       None \<Rightarrow> s2
                     | Some d \<Rightarrow> emit (DisplaySetSize d w h) s2);
               s4 = (if cb then emit (AckCallback i w h (parts s3 ! i)) s3 else s3)
           in vlc_sem_post i s4))"

definition vlc_vidsplit_window_Closed :: "nat \<Rightarrow> vout_display_sys_t \<Rightarrow> stop + vout_display_sys_t" where
  "vlc_vidsplit_window_Closed i s =
     (case vlc_sem_wait i s of
        Inl e \<Rightarrow> Inl e
      | Inr s1 \<Rightarrow>
          (case vlc_sem_post i (s1\<lparr>parts := (parts s1)[i := (parts s1 ! i)\<lparr>display := None\<rparr>]\<rparr>) of
             Inl e \<Rightarrow> Inl e
           | Inr s2 \<Rightarrow>
               (case display (parts s1 ! i) of
                  None \<Rightarrow> Inr s2
                | Some d \<Rightarrow> Inr (emit (DisplayDelete d) s2))))"

text \<open>The two event structures of \<open>vlc_vidsplit_window_MouseEvent\<close>: the one the caller
  points to (\<open>*e\<close>) and the local \<open>ev\<close>, which is what \<open>video_splitter_Mouse\<close> gets a
  pointer to.\<close>

record mouse_frame =
  caller_e :: vlc_window_mouse_event_t
  ev :: vlc_window_mouse_event_t

definition vlc_vidsplit_window_MouseEvent ::
  "env \<Rightarrow> nat \<Rightarrow> vlc_window_mouse_event_t \<Rightarrow> vout_display_sys_t
     \<Rightarrow> stop + (mouse_frame \<times> vout_display_sys_t)" where
  "vlc_vidsplit_window_MouseEvent env i e s =
     (let f = \<lparr>caller_e = e, ev = e\<rparr>
      in case vlc_mutex_lock s of
           Inl er \<Rightarrow> Inl er
         | Inr s1 \<Rightarrow>
             (case splitter_Mouse env i (ev f) of
                (rc, ev') \<Rightarrow>
                  (let s2 = emit (SplitterMouse i (ev f)) s1;
                       f' = f\<lparr>ev := ev'\<rparr>;
                       s3 = (if rc = VLC_SUCCESS then emit (WindowSendMouseEvent (ev f')) s2
                             else s2)
                   in Inr (f', vlc_mutex_unlock s3))))"

definition vlc_vidsplit_window_KeyboardEvent ::
  "32 word \<Rightarrow> vout_display_sys_t \<Rightarrow> stop + vout_display_sys_t" where
  "vlc_vidsplit_window_KeyboardEvent key s =
     (case vlc_mutex_lock s of
        Inl e \<Rightarrow> Inl e
      | Inr s1 \<Rightarrow> Inr (vlc_mutex_unlock (emit (WindowReportKeyPress key) s1)))"

subsection \<open>Construction\<close>

text \<open>
  What \<open>vlc_vidsplit_Open\<close> finds around it: whether the display configuration is windowed,
  the value of the \<open>video-splitter\<close> variable, whether the object and the two arrays can be
  allocated (and what a fresh array holds), the output count a loaded splitter module
  reports, what window and display creation answer for each part, the orientation of
  \<open>vd->source\<close>, and the two error codes, whose values are defined outside the file.
\<close>

record open_env =
  cfg_IsWindowed :: bool
  var_InheritString :: "string option"
  object_create :: bool
  source :: video_orientation_t
  module_need :: "string \<Rightarrow> int option"
  pictures_malloc :: bool
  parts_malloc :: bool
  raw_picture :: "picture_t option"
  raw_part :: vlc_vidsplit_part
  window_New :: "nat \<Rightarrow> vlc_window_t option"
  window_Enable :: "vlc_window_t \<Rightarrow> int"
  display_New :: "nat \<Rightarrow> vlc_window_t option \<Rightarrow> 32 word \<Rightarrow> 32 word \<Rightarrow> vout_display_t option"
  VLC_EGENERIC :: int
  VLC_ENOMEM :: int

text \<open>What \<open>vlc_vidsplit_Open\<close> leaves behind: its return value, whether \<open>vd->ops\<close> was set,
  the orientation in \<open>*fmtp\<close>, and the object behind \<open>vd->sys\<close> (with its log) if it was
  created.\<close>

record open_result =
  rc :: int
  ops :: bool
  fmtp :: video_orientation_t
  sys :: "vout_display_sys_t option"

definition video_splitter_CreateWindow ::
  "open_env \<Rightarrow> nat \<Rightarrow> vout_display_sys_t \<Rightarrow> vlc_window_t option \<times> vout_display_sys_t" where
  "video_splitter_CreateWindow oe i s =
     (let w = window_New oe i; s1 = emit (WindowNew i w) s
      in case w of
           None \<Rightarrow> (None, s1)
         | Some h \<Rightarrow>
             (let r = window_Enable oe h; s2 = emit (WindowEnable h r) s1
              in if r \<noteq> 0 then (None, emit (WindowDelete (Some h)) s2) else (Some h, s2)))"

text \<open>The failure exit of the loop: \<open>splitter->i_output = i; vlc_vidsplit_Close(vd);
  return VLC_EGENERIC\<close>.\<close>

definition open_abort ::
  "open_env \<Rightarrow> nat \<Rightarrow> vout_display_sys_t \<Rightarrow> stop + (int \<times> vout_display_sys_t)" where
  "open_abort oe i s =
     (case vlc_vidsplit_Close (s\<lparr>i_output := int i\<rparr>) of
        Inl e \<Rightarrow> Inl e
      | Inr s1 \<Rightarrow> Inr (VLC_EGENERIC oe, s1))"

text \<open>The body of the loop for part \<open>i\<close>: \<open>Inr (Inl r)\<close> when Open returns \<open>r\<close> from inside
  the loop, \<open>Inr (Inr s)\<close> when the loop goes on.\<close>

definition open_part ::
  "open_env \<Rightarrow> nat \<Rightarrow> vout_display_sys_t
     \<Rightarrow> stop + ((int \<times> vout_display_sys_t) + vout_display_sys_t)" where
  "open_part oe i s =
     (if length (parts s) \<le> i then Inl OutOfBounds
      else
        (let s1 = s\<lparr>parts := (parts s)[i := (parts s ! i)\<lparr>display := None, lock := 1,
                                                         width := 1, height := 1\<rparr>]\<rparr>
         in case video_splitter_CreateWindow oe i s1 of
              (w, s2) \<Rightarrow>
                (let s3 = s2\<lparr>parts := (parts s2)[i := (parts s2 ! i)\<lparr>window := w\<rparr>]\<rparr>
                 in if w = None then
                      (case open_abort oe i s3 of Inl e \<Rightarrow> Inl e | Inr r \<Rightarrow> Inr (Inl r))
                    else
                      (case vlc_sem_wait i s3 of
                         Inl e \<Rightarrow> Inl e
                       | Inr s4 \<Rightarrow>
                           (let d = display_New oe i w (width (parts s4 ! i)) (height (parts s4 ! i));
                                s5 = emit (DisplayNew i w (width (parts s4 ! i))
                                             (height (parts s4 ! i)) d) s4
                            in if d = None then
                                 (case vlc_sem_post i s5 of
                                    Inl e \<Rightarrow> Inl e
                                  | Inr s6 \<Rightarrow>
                                      (case open_abort oe i
                                              (emit (WindowDelete (window (parts s6 ! i)))
                                                 (emit (WindowDisable (window (parts s6 ! i))) s6)) of
                                         Inl e \<Rightarrow> Inl e
                                       | Inr r \<Rightarrow> Inr (Inl r)))
                               else
                                 (case vlc_sem_post i
                                         (s5\<lparr>parts := (parts s5)[i := (parts s5 ! i)\<lparr>display := d\<rparr>]\<rparr>) of
                                    Inl e \<Rightarrow> Inl e
                                  | Inr s6 \<Rightarrow> Inr (Inr s6)))))))"

function open_loop ::
  "open_env \<Rightarrow> nat \<Rightarrow> vout_display_sys_t
     \<Rightarrow> stop + ((int \<times> vout_display_sys_t) + vout_display_sys_t)" where
  "open_loop oe i s =
     (if int i < i_output s then
        (case open_part oe i s of
           Inl e \<Rightarrow> Inl e
         | Inr (Inl r) \<Rightarrow> Inr (Inl r)
         | Inr (Inr s1) \<Rightarrow> open_loop oe (i + 1) s1)
      else Inr (Inr s))"
  by pat_completeness auto
termination
  by (relation "measure (\<lambda>(oe, i, s). nat (i_output s) - i)")
     (auto simp: open_part_def video_splitter_CreateWindow_def vlc_sem_wait_def
                 vlc_sem_post_def emit_def Let_def
           split: if_splits sum.splits prod.splits option.splits)

definition vlc_vidsplit_Open :: "open_env \<Rightarrow> video_orientation_t \<Rightarrow> stop + open_result" where
  "vlc_vidsplit_Open oe fmtp0 =
     (if cfg_IsWindowed oe then
        Inr \<lparr>rc = VLC_EGENERIC oe, ops = False, fmtp = fmtp0, sys = None\<rparr>
      else
        (case var_InheritString oe of
           None \<Rightarrow> Inr \<lparr>rc = VLC_EGENERIC oe, ops = False, fmtp = fmtp0, sys = None\<rparr>
         | Some name \<Rightarrow>
             if \<not> object_create oe then
               Inr \<lparr>rc = VLC_ENOMEM oe, ops = False, fmtp = fmtp0, sys = None\<rparr>
             else
               (let s0 = \<lparr>i_output = 0, fmt = source oe, sys_lock = False,
                          pictures = [], parts = [], log = []\<rparr>;
                    s1 = s0\<lparr>fmt := ORIENT_NORMAL\<rparr>;
                    fmtp1 = ORIENT_NORMAL;
                    s2 = emit (ModuleNeed (fmt s1)) s1
                in case module_need oe name of
                     None \<Rightarrow>
                       Inr \<lparr>rc = VLC_EGENERIC oe, ops = False, fmtp = fmtp1,
                            sys = Some (emit ObjectDelete (emit FormatClean s2))\<rparr>
                   | Some n \<Rightarrow>
                       (let s3 = s2\<lparr>i_output := n\<rparr>;
                            s4 = s3\<lparr>pictures := (if pictures_malloc oe
                                                  then replicate (nat n) (raw_picture oe) else []),
                                    parts := (if parts_malloc oe
                                              then replicate (nat n) (raw_part oe) else [])\<rparr>
                        in if \<not> pictures_malloc oe \<or> \<not> parts_malloc oe then
                             (case vlc_vidsplit_Close (s4\<lparr>i_output := 0\<rparr>) of
                                Inl e \<Rightarrow> Inl e
                              | Inr s5 \<Rightarrow>
                                  Inr \<lparr>rc = VLC_ENOMEM oe, ops = False, fmtp = fmtp1,
                                       sys = Some s5\<rparr>)
                           else
                             (case open_loop oe 0 s4 of
                                Inl e \<Rightarrow> Inl e
                              | Inr (Inl (r, s5)) \<Rightarrow>
                                  Inr \<lparr>rc = r, ops = False, fmtp = fmtp1, sys = Some s5\<rparr>
                              | Inr (Inr s5) \<Rightarrow>
                                  Inr \<lparr>rc = VLC_SUCCESS, ops = True, fmtp = fmtp1,
                                       sys = Some s5\<rparr>)))))"

subsection \<open>Reading the log\<close>

text \<open>What one round of each loop of the render cycle adds to the log, for a part \<open>j\<close>
  whose slot and display are as in \<open>s\<close>.\<close>

definition prepare_events :: "env \<Rightarrow> vout_display_sys_t \<Rightarrow> nat \<Rightarrow> event list" where
  "prepare_events env s j =
     [SemWait j, SlotLoad j, DisplayPrepare j (display (parts s ! j)) (pictures s ! j), SlotStore j]"

definition display_events :: "vout_display_sys_t \<Rightarrow> nat \<Rightarrow> event list" where
  "display_events s j =
     SlotLoad j
     # (case pictures s ! j of
          None \<Rightarrow> []
        | Some p \<Rightarrow> [DisplayDisplay j (display (parts s ! j)) p, PictureRelease p])
     @ [SemPost j]"

text \<open>The calls a display received (\<open>vout_display_Prepare\<close>, \<open>vout_display_Display\<close> with a
  non-null display), as pairs of part index and display, and the parts whose semaphore was
  waited on or posted, each in log order.\<close>

definition prepare_call :: "event \<Rightarrow> (nat \<times> vout_display_t) list" where
  "prepare_call e = (case e of DisplayPrepare i (Some d) p \<Rightarrow> [(i, d)] | _ \<Rightarrow> [])"

definition present_call :: "event \<Rightarrow> (nat \<times> vout_display_t) list" where
  "present_call e = (case e of DisplayDisplay i (Some d) p \<Rightarrow> [(i, d)] | _ \<Rightarrow> [])"

definition wait_call :: "event \<Rightarrow> nat list" where
  "wait_call e = (case e of SemWait i \<Rightarrow> [i] | _ \<Rightarrow> [])"

definition post_call :: "event \<Rightarrow> nat list" where
  "post_call e = (case e of SemPost i \<Rightarrow> [i] | _ \<Rightarrow> [])"

definition prepares :: "event list \<Rightarrow> (nat \<times> vout_display_t) list" where
  "prepares es = concat (map prepare_call es)"

definition presents :: "event list \<Rightarrow> (nat \<times> vout_display_t) list" where
  "presents es = concat (map present_call es)"

definition waits :: "event list \<Rightarrow> nat list" where
  "waits es = concat (map wait_call es)"

definition posts :: "event list \<Rightarrow> nat list" where
  "posts es = concat (map post_call es)"

text \<open>The parts below \<open>i_output\<close> that have a display, in index order.\<close>

definition bound_displays :: "vout_display_sys_t \<Rightarrow> (nat \<times> vout_display_t) list" where
  "bound_displays s =
     concat (map (\<lambda>i. case display (parts s ! i) of None \<Rightarrow> [] | Some d \<Rightarrow> [(i, d)])
               [0..<nat (i_output s)])"

subsection \<open>Reading the log of teardown\<close>

text \<open>What one round of the loop of \<open>vlc_vidsplit_Close\<close> adds to the log for a part \<open>p\<close>
  at index \<open>i\<close>, and the displays handed to \<open>vout_display_Delete\<close>, in log order.\<close>

definition close_events :: "vlc_vidsplit_part \<Rightarrow> nat \<Rightarrow> event list" where
  "close_events p i =
     [SemWait i, SemPost i]
     @ (case display p of None \<Rightarrow> [] | Some d \<Rightarrow> [DisplayDelete d])
     @ [WindowDisable (window p), WindowDelete (window p)]"

definition delete_call :: "event \<Rightarrow> vout_display_t list" where
  "delete_call e = (case e of DisplayDelete d \<Rightarrow> [d] | _ \<Rightarrow> [])"

definition deletes :: "event list \<Rightarrow> vout_display_t list" where
  "deletes es = concat (map delete_call es)"

subsection \<open>Reading the log of construction\<close>

text \<open>
  For part \<open>i\<close> of \<open>vlc_vidsplit_Open\<close>: whether its window and display can be made
  (with the size 1 by 1 that the part holds when no resize came in between), the part
  as a successful round leaves it, and what the round adds to the log before it either
  goes on or calls \<open>vlc_vidsplit_Close\<close>.
\<close>

definition part_built :: "open_env \<Rightarrow> nat \<Rightarrow> vlc_vidsplit_part" where
  "part_built oe i =
     \<lparr>window = window_New oe i, display = display_New oe i (window_New oe i) 1 1,
      lock = 1, width = 1, height = 1\<rparr>"

definition part_ok :: "open_env \<Rightarrow> nat \<Rightarrow> bool" where
  "part_ok oe i =
     (case window_New oe i of
        None \<Rightarrow> False
      | Some h \<Rightarrow> window_Enable oe h = 0 \<and> display_New oe i (Some h) 1 1 \<noteq> None)"

definition round_events :: "open_env \<Rightarrow> nat \<Rightarrow> event list" where
  "round_events oe i =
     (case window_New oe i of
        None \<Rightarrow> [WindowNew i None]
      | Some h \<Rightarrow>
          [WindowNew i (Some h), WindowEnable h (window_Enable oe h)]
          @ (if window_Enable oe h \<noteq> 0 then [WindowDelete (Some h)]
             else [SemWait i, DisplayNew i (Some h) 1 1 (display_New oe i (Some h) 1 1), SemPost i]
                  @ (if display_New oe i (Some h) 1 1 = None
                     then [WindowDisable (Some h), WindowDelete (Some h)] else [])))"

text \<open>The object as it is when the loop of \<open>vlc_vidsplit_Open\<close> starts, for a module that
  reports \<open>n\<close> outputs.\<close>

definition open_start :: "open_env \<Rightarrow> int \<Rightarrow> vout_display_sys_t" where
  "open_start oe n =
     \<lparr>i_output = n, fmt = ORIENT_NORMAL, sys_lock = False,
      pictures = replicate (nat n) (raw_picture oe), parts = replicate (nat n) (raw_part oe),
      log = [ModuleNeed ORIENT_NORMAL]\<rparr>"

text \<open>The environments in which nothing stops \<open>vlc_vidsplit_Open\<close>: the display is not
  windowed, the variable is set, the object, the module and both arrays are there, and
  every part the module reports can be built.\<close>

definition open_succeeds :: "open_env \<Rightarrow> bool" where
  "open_succeeds oe =
     (\<not> cfg_IsWindowed oe
      \<and> (case var_InheritString oe of
            None \<Rightarrow> False
          | Some name \<Rightarrow>
              object_create oe
              \<and> (case module_need oe name of
                    None \<Rightarrow> False
                  | Some n \<Rightarrow>
                      pictures_malloc oe \<and> parts_malloc oe
                      \<and> list_all (part_ok oe) [0..<nat n])))"

text \<open>The windows and displays that were created (a non-null result of
  \<open>vlc_window_New\<close>, \<open>vout_display_New\<close>) and the windows handed to \<open>vlc_window_Delete\<close>, in
  log order.\<close>

definition window_created :: "event \<Rightarrow> vlc_window_t list" where
  "window_created e = (case e of WindowNew i (Some h) \<Rightarrow> [h] | _ \<Rightarrow> [])"

definition window_deleted :: "event \<Rightarrow> vlc_window_t list" where
  "window_deleted e = (case e of WindowDelete (Some h) \<Rightarrow> [h] | _ \<Rightarrow> [])"

definition display_created :: "event \<Rightarrow> vout_display_t list" where
  "display_created e = (case e of DisplayNew i w a b (Some d) \<Rightarrow> [d] | _ \<Rightarrow> [])"

definition windows_created :: "event list \<Rightarrow> vlc_window_t list" where
  "windows_created es = concat (map window_created es)"

definition windows_deleted :: "event list \<Rightarrow> vlc_window_t list" where
  "windows_deleted es = concat (map window_deleted es)"

definition displays_created :: "event list \<Rightarrow> vout_display_t list" where
  "displays_created es = concat (map display_created es)"

subsection \<open>Lock discipline\<close>

text \<open>Calls into the splitter engine, and accesses to the \<open>pictures\<close> array.\<close>

definition engine_call :: "event \<Rightarrow> bool" where
  "engine_call e = (case e of SplitterFilter p \<Rightarrow> True | SplitterMouse i m \<Rightarrow> True | _ \<Rightarrow> False)"

definition slot_access :: "event \<Rightarrow> bool" where
  "slot_access e = (case e of SlotLoad i \<Rightarrow> True | SlotStore i \<Rightarrow> True | _ \<Rightarrow> False)"

definition shared_access :: "event \<Rightarrow> bool" where
  "shared_access e = (engine_call e \<or> slot_access e)"

text \<open>\<open>guarded P h es\<close>: in the events \<open>es\<close>, starting with the mutex held (\<open>h\<close>) or not, every
  event that satisfies \<open>P\<close> happens between a \<open>vlc_mutex_lock\<close> and the next
  \<open>vlc_mutex_unlock\<close>.\<close>

fun guarded :: "(event \<Rightarrow> bool) \<Rightarrow> bool \<Rightarrow> event list \<Rightarrow> bool" where
  "guarded P h [] = True"
| "guarded P h (e # es) =
     (if e = MutexLock then guarded P True es
      else if e = MutexUnlock then guarded P False es
      else (if P e then h else True) \<and> guarded P h es)"

text \<open>The entry points of the running display: the two render calls of the operations
  table and the four window callbacks.\<close>

datatype operation =
    Prepare picture_t
  | Display
  | Resized nat "32 word" "32 word" bool
  | Closed nat
  | MouseEvent nat vlc_window_mouse_event_t
  | KeyboardEvent "32 word"

fun run :: "env \<Rightarrow> operation \<Rightarrow> vout_display_sys_t \<Rightarrow> stop + vout_display_sys_t" where
  "run env (Prepare pic) s = vlc_vidsplit_Prepare env pic s"
| "run env Display s = vlc_vidsplit_Display s"
| "run env (Resized i w h cb) s = vlc_vidsplit_window_Resized i w h cb s"
| "run env (Closed i) s = vlc_vidsplit_window_Closed i s"
| "run env (MouseEvent i e) s =
     (case vlc_vidsplit_window_MouseEvent env i e s of
        Inl er \<Rightarrow> Inl er
      | Inr (f, s') \<Rightarrow> Inr s')"
| "run env (KeyboardEvent key) s = vlc_vidsplit_window_KeyboardEvent key s"

text \<open>Events that neither call the engine nor touch the mutex, and operations that add
  only such events.\<close>

definition quiet :: "event \<Rightarrow> bool" where
  "quiet e = (\<not> engine_call e \<and> e \<noteq> MutexLock \<and> e \<noteq> MutexUnlock)"

definition adds_quiet :: "vout_display_sys_t \<Rightarrow> vout_display_sys_t \<Rightarrow> bool" where
  "adds_quiet s s' =
     (take (length (log s)) (log s') = log s
      \<and> list_all quiet (drop (length (log s)) (log s')))"

text \<open>The loops are unfolded by hand, one round at a time.\<close>

declare clear_loop.simps [simp del]
declare prepare_loop.simps [simp del]
declare display_loop.simps [simp del]
declare close_loop.simps [simp del]
declare open_loop.simps [simp del]

subsection \<open>A render cycle and sample configurations\<close>

text \<open>The scheduler calls \<open>prepare\<close> and then \<open>display\<close> for every picture.\<close>

definition render_cycle ::
  "env \<Rightarrow> picture_t \<Rightarrow> vout_display_sys_t \<Rightarrow> stop + vout_display_sys_t" where
  "render_cycle env pic s =
     (case vlc_vidsplit_Prepare env pic s of
        Inl e \<Rightarrow> Inl e
      | Inr s1 \<Rightarrow> vlc_vidsplit_Display s1)"

text \<open>One operation after another, when the first returns.\<close>

definition and_then :: "stop + 'a \<Rightarrow> ('a \<Rightarrow> stop + 'b) \<Rightarrow> stop + 'b" where
  "and_then r f = (case r of Inl e \<Rightarrow> Inl e | Inr s \<Rightarrow> f s)"

text \<open>The log an operation ends with (empty when it does not return).\<close>

definition events_of :: "stop + vout_display_sys_t \<Rightarrow> event list" where
  "events_of r = (case r of Inl e \<Rightarrow> [] | Inr s \<Rightarrow> log s)"

text \<open>The events an operation added to the log.\<close>

definition new_events :: "vout_display_sys_t \<Rightarrow> vout_display_sys_t \<Rightarrow> event list" where
  "new_events s s' = drop (length (log s)) (log s')"

text \<open>Two parts with a window and a display each, semaphores free, mutex free.\<close>

definition demo_sys :: vout_display_sys_t where
  "demo_sys =
     \<lparr>i_output = 2, fmt = ORIENT_NORMAL, sys_lock = False, pictures = [None, None],
      parts = [\<lparr>window = Some 7, display = Some 3, lock = 1, width = 1, height = 1\<rparr>,
               \<lparr>window = Some 8, display = Some 4, lock = 1, width = 1, height = 1\<rparr>],
      log = []\<rparr>"

text \<open>A splitter that produces pictures \<open>10 * pic + i\<close> and moves mouse events by 100
  columns, displays that hand the picture back; \<open>demo_env_fail\<close> has a failing filter.\<close>

definition demo_env :: env where
  "demo_env =
     \<lparr>filter_rc = (\<lambda>p. 0), filter_out = (\<lambda>p i. Some (10 * p + i)),
      display_Prepare = (\<lambda>d p. p),
      splitter_Mouse = (\<lambda>i e. (if 100 \<le> ev_x e then 0 else - 1, e\<lparr>ev_x := ev_x e - 100\<rparr>))\<rparr>"

definition demo_env_fail :: env where
  "demo_env_fail = demo_env\<lparr>filter_rc := (\<lambda>p. - 1)\<rparr>"

text \<open>Displays whose \<open>vout_display_Prepare\<close> returns no picture.\<close>

definition demo_env_drop :: env where
  "demo_env_drop = demo_env\<lparr>display_Prepare := (\<lambda>d p. None)\<rparr>"

text \<open>A splitter module \<open>wall\<close> with three outputs; every window can be made, the display
  of part 2 cannot.\<close>

definition demo_open :: open_env where
  "demo_open =
     \<lparr>cfg_IsWindowed = False, var_InheritString = Some ''wall'', object_create = True,
      source = ORIENT_OTHER 3, module_need = (\<lambda>name. if name = ''wall'' then Some 3 else None),
      pictures_malloc = True, parts_malloc = True, raw_picture = None,
      raw_part = \<lparr>window = None, display = None, lock = 0, width = 0, height = 0\<rparr>,
      window_New = (\<lambda>i. Some (100 + i)), window_Enable = (\<lambda>w. 0),
      display_New = (\<lambda>i w a b. if i = 2 then None else Some (200 + i)),
      VLC_EGENERIC = - 1, VLC_ENOMEM = - 2\<rparr>"

text \<open>The same module with displays that can all be made.\<close>

definition demo_open_ok :: open_env where
  "demo_open_ok = demo_open\<lparr>display_New := (\<lambda>i w a b. Some (200 + i))\<rparr>"

section \<open>Properties\<close>

subsection \<open>What the loops do\<close>

lemma concat_map_concat:
  "concat (map f (concat xss)) = concat (map (\<lambda>xs. concat (map f xs)) xss)"
  by (induction xss) simp_all

lemma new_events_append: "log s' = log s @ es \<Longrightarrow> new_events s s' = es"
  by (simp add: new_events_def)

lemma concat_map_single: "concat (map (\<lambda>j. [j]) xs) = xs"
  by (induction xs) simp_all

lemma concat_map_nil: "concat (map (\<lambda>j. []) xs) = []"
  by (induction xs) simp_all

lemma prepare_part_run:
  assumes "i < length (parts s)" "i < length (pictures s)" "0 < lock (parts s ! i)"
  shows "prepare_part env i s =
           Inr (s\<lparr>parts := (parts s)[i := (parts s ! i)\<lparr>lock := lock (parts s ! i) - 1\<rparr>],
                  pictures := (pictures s)[i := display_Prepare env (display (parts s ! i)) (pictures s ! i)],
                  log := log s @ [SemWait i, SlotLoad i,
                                  DisplayPrepare i (display (parts s ! i)) (pictures s ! i),
                                  SlotStore i]\<rparr>)"
  using assms
  by (simp add: prepare_part_def vlc_sem_wait_def load_slot_def store_slot_def emit_def)

lemma prepare_loop_run:
  assumes "nat (i_output s) \<le> length (parts s)" "nat (i_output s) \<le> length (pictures s)"
    and "\<forall>j. i \<le> j \<and> j < nat (i_output s) \<longrightarrow> 0 < lock (parts s ! j)"
  shows "\<exists>s'. prepare_loop env i s = Inr s'
           \<and> log s' = log s @ concat (map (prepare_events env s) [i..<nat (i_output s)])
           \<and> i_output s' = i_output s \<and> sys_lock s' = sys_lock s \<and> fmt s' = fmt s
           \<and> length (parts s') = length (parts s) \<and> length (pictures s') = length (pictures s)
           \<and> (\<forall>j. parts s' ! j = (if i \<le> j \<and> j < nat (i_output s)
                                    then (parts s ! j)\<lparr>lock := lock (parts s ! j) - 1\<rparr>
                                    else parts s ! j))
           \<and> (\<forall>j. pictures s' ! j = (if i \<le> j \<and> j < nat (i_output s)
                                    then display_Prepare env (display (parts s ! j)) (pictures s ! j)
                                    else pictures s ! j))"
  using assms
proof (induction "nat (i_output s) - i" arbitrary: i s)
  case 0
  then have le: "nat (i_output s) \<le> i" by linarith
  then have "\<not> int i < i_output s" by linarith
  then have "prepare_loop env i s = Inr s" by (simp add: prepare_loop.simps[of env i s])
  then show ?case using le by auto
next
  case (Suc k)
  then have lt: "i < nat (i_output s)" by linarith
  then have c: "int i < i_output s" by linarith
  have b1: "i < length (parts s)" and b2: "i < length (pictures s)"
    using lt Suc.prems by linarith+
  have lk: "0 < lock (parts s ! i)" using Suc.prems lt by simp
  let ?s1 = "s\<lparr>parts := (parts s)[i := (parts s ! i)\<lparr>lock := lock (parts s ! i) - 1\<rparr>],
                  pictures := (pictures s)[i := display_Prepare env (display (parts s ! i)) (pictures s ! i)],
                  log := log s @ prepare_events env s i\<rparr>"
  have pp: "prepare_part env i s = Inr ?s1"
    using prepare_part_run[OF b1 b2 lk] by (simp add: prepare_events_def)
  have k: "k = nat (i_output ?s1) - Suc i" using Suc.hyps by simp
  have "\<exists>s'. prepare_loop env (Suc i) ?s1 = Inr s'
           \<and> log s' = log ?s1 @ concat (map (prepare_events env ?s1) [Suc i..<nat (i_output ?s1)])
           \<and> i_output s' = i_output ?s1 \<and> sys_lock s' = sys_lock ?s1 \<and> fmt s' = fmt ?s1
           \<and> length (parts s') = length (parts ?s1) \<and> length (pictures s') = length (pictures ?s1)
           \<and> (\<forall>j. parts s' ! j = (if Suc i \<le> j \<and> j < nat (i_output ?s1)
                                    then (parts ?s1 ! j)\<lparr>lock := lock (parts ?s1 ! j) - 1\<rparr>
                                    else parts ?s1 ! j))
           \<and> (\<forall>j. pictures s' ! j = (if Suc i \<le> j \<and> j < nat (i_output ?s1)
                                    then display_Prepare env (display (parts ?s1 ! j)) (pictures ?s1 ! j)
                                    else pictures ?s1 ! j))"
    using Suc.prems by (intro Suc.hyps(1)[OF k]) (simp_all)
  then obtain s' where s': "prepare_loop env (Suc i) ?s1 = Inr s'"
     and lg: "log s' = log ?s1 @ concat (map (prepare_events env ?s1) [Suc i..<nat (i_output ?s1)])"
     and rest: "i_output s' = i_output ?s1" "sys_lock s' = sys_lock ?s1" "fmt s' = fmt ?s1"
        "length (parts s') = length (parts ?s1)" "length (pictures s') = length (pictures ?s1)"
     and pa: "\<forall>j. parts s' ! j = (if Suc i \<le> j \<and> j < nat (i_output ?s1)
                                    then (parts ?s1 ! j)\<lparr>lock := lock (parts ?s1 ! j) - 1\<rparr>
                                    else parts ?s1 ! j)"
     and pi: "\<forall>j. pictures s' ! j = (if Suc i \<le> j \<and> j < nat (i_output ?s1)
                                    then display_Prepare env (display (parts ?s1 ! j)) (pictures ?s1 ! j)
                                    else pictures ?s1 ! j)"
    by blast
  have "map (prepare_events env ?s1) [Suc i..<nat (i_output s)]
          = map (prepare_events env s) [Suc i..<nat (i_output s)]"
    by (rule map_cong) (simp_all add: prepare_events_def)
  then have ev: "concat (map (prepare_events env ?s1) [Suc i..<nat (i_output s)])
          = concat (map (prepare_events env s) [Suc i..<nat (i_output s)])"
    by (rule arg_cong)
  have run: "prepare_loop env i s = Inr s'"
    using c pp s' by (simp add: prepare_loop.simps[of env i s])
  have lg': "log s' = log s @ concat (map (prepare_events env s) [i..<nat (i_output s)])"
    using lg lt ev by (simp add: upt_conv_Cons)
  have pa': "\<forall>j. parts s' ! j = (if i \<le> j \<and> j < nat (i_output s)
                                    then (parts s ! j)\<lparr>lock := lock (parts s ! j) - 1\<rparr>
                                    else parts s ! j)"
    using pa b1 lt by (auto simp: nth_list_update)
  have pi': "\<forall>j. pictures s' ! j = (if i \<le> j \<and> j < nat (i_output s)
                                    then display_Prepare env (display (parts s ! j)) (pictures s ! j)
                                    else pictures s ! j)"
    using pi b2 lt by (auto simp: nth_list_update)
  show ?case using run lg' pa' pi' rest by simp
qed

lemma clear_loop_run:
  assumes "nat (i_output s) \<le> length (pictures s)"
  shows "\<exists>s'. clear_loop i s = Inr s'
           \<and> log s' = log s @ map SlotStore [i..<nat (i_output s)]
           \<and> i_output s' = i_output s \<and> sys_lock s' = sys_lock s \<and> fmt s' = fmt s
           \<and> parts s' = parts s \<and> length (pictures s') = length (pictures s)
           \<and> (\<forall>j. pictures s' ! j = (if i \<le> j \<and> j < nat (i_output s) then None
                                       else pictures s ! j))"
  using assms
proof (induction "nat (i_output s) - i" arbitrary: i s)
  case 0
  then have le: "nat (i_output s) \<le> i" by linarith
  then have "\<not> int i < i_output s" by linarith
  then have "clear_loop i s = Inr s" by (simp add: clear_loop.simps[of i s])
  then show ?case using le by auto
next
  case (Suc k)
  then have lt: "i < nat (i_output s)" by linarith
  then have c: "int i < i_output s" by linarith
  have b: "i < length (pictures s)" using lt Suc.prems by linarith
  let ?s1 = "s\<lparr>pictures := (pictures s)[i := None], log := log s @ [SlotStore i]\<rparr>"
  have st: "store_slot i None s = Inr ?s1"
    using b by (simp add: store_slot_def emit_def)
  have k: "k = nat (i_output ?s1) - Suc i" using Suc.hyps by simp
  have "\<exists>s'. clear_loop (Suc i) ?s1 = Inr s'
           \<and> log s' = log ?s1 @ map SlotStore [Suc i..<nat (i_output ?s1)]
           \<and> i_output s' = i_output ?s1 \<and> sys_lock s' = sys_lock ?s1 \<and> fmt s' = fmt ?s1
           \<and> parts s' = parts ?s1 \<and> length (pictures s') = length (pictures ?s1)
           \<and> (\<forall>j. pictures s' ! j = (if Suc i \<le> j \<and> j < nat (i_output ?s1) then None
                                       else pictures ?s1 ! j))"
    using Suc.prems by (intro Suc.hyps(1)[OF k]) simp
  then obtain s' where s': "clear_loop (Suc i) ?s1 = Inr s'"
     and lg: "log s' = log ?s1 @ map SlotStore [Suc i..<nat (i_output ?s1)]"
     and rest: "i_output s' = i_output ?s1" "sys_lock s' = sys_lock ?s1" "fmt s' = fmt ?s1"
        "parts s' = parts ?s1" "length (pictures s') = length (pictures ?s1)"
     and pi: "\<forall>j. pictures s' ! j = (if Suc i \<le> j \<and> j < nat (i_output ?s1) then None
                                       else pictures ?s1 ! j)"
    by blast
  have run: "clear_loop i s = Inr s'"
    using c st s' by (simp add: clear_loop.simps[of i s])
  have lg': "log s' = log s @ map SlotStore [i..<nat (i_output s)]"
    using lg lt by (simp add: upt_conv_Cons)
  have pi': "\<forall>j. pictures s' ! j = (if i \<le> j \<and> j < nat (i_output s) then None
                                       else pictures s ! j)"
    using pi b lt by (auto simp: nth_list_update)
  show ?case using run lg' pi' rest by simp
qed

lemma display_part_run:
  assumes "i < length (parts s)" "i < length (pictures s)"
  shows "display_part i s =
           Inr (s\<lparr>parts := (parts s)[i := (parts s ! i)\<lparr>lock := lock (parts s ! i) + 1\<rparr>],
                  log := log s @ display_events s i\<rparr>)"
  using assms
  by (cases "pictures s ! i")
     (simp_all add: display_part_def display_events_def load_slot_def vlc_sem_post_def emit_def)

lemma display_loop_run:
  assumes "nat (i_output s) \<le> length (parts s)" "nat (i_output s) \<le> length (pictures s)"
  shows "\<exists>s'. display_loop i s = Inr s'
           \<and> log s' = log s @ concat (map (display_events s) [i..<nat (i_output s)])
           \<and> i_output s' = i_output s \<and> sys_lock s' = sys_lock s \<and> fmt s' = fmt s
           \<and> length (parts s') = length (parts s) \<and> pictures s' = pictures s
           \<and> (\<forall>j. parts s' ! j = (if i \<le> j \<and> j < nat (i_output s)
                                    then (parts s ! j)\<lparr>lock := lock (parts s ! j) + 1\<rparr>
                                    else parts s ! j))"
  using assms
proof (induction "nat (i_output s) - i" arbitrary: i s)
  case 0
  then have le: "nat (i_output s) \<le> i" by linarith
  then have "\<not> int i < i_output s" by linarith
  then have "display_loop i s = Inr s" by (simp add: display_loop.simps[of i s])
  then show ?case using le by auto
next
  case (Suc k)
  then have lt: "i < nat (i_output s)" by linarith
  then have c: "int i < i_output s" by linarith
  have b1: "i < length (parts s)" and b2: "i < length (pictures s)"
    using lt Suc.prems by linarith+
  let ?s1 = "s\<lparr>parts := (parts s)[i := (parts s ! i)\<lparr>lock := lock (parts s ! i) + 1\<rparr>],
                  log := log s @ display_events s i\<rparr>"
  have pp: "display_part i s = Inr ?s1"
    using display_part_run[OF b1 b2] .
  have k: "k = nat (i_output ?s1) - Suc i" using Suc.hyps by simp
  have "\<exists>s'. display_loop (Suc i) ?s1 = Inr s'
           \<and> log s' = log ?s1 @ concat (map (display_events ?s1) [Suc i..<nat (i_output ?s1)])
           \<and> i_output s' = i_output ?s1 \<and> sys_lock s' = sys_lock ?s1 \<and> fmt s' = fmt ?s1
           \<and> length (parts s') = length (parts ?s1) \<and> pictures s' = pictures ?s1
           \<and> (\<forall>j. parts s' ! j = (if Suc i \<le> j \<and> j < nat (i_output ?s1)
                                    then (parts ?s1 ! j)\<lparr>lock := lock (parts ?s1 ! j) + 1\<rparr>
                                    else parts ?s1 ! j))"
    using Suc.prems by (intro Suc.hyps(1)[OF k]) simp_all
  then obtain s' where s': "display_loop (Suc i) ?s1 = Inr s'"
     and lg: "log s' = log ?s1 @ concat (map (display_events ?s1) [Suc i..<nat (i_output ?s1)])"
     and rest: "i_output s' = i_output ?s1" "sys_lock s' = sys_lock ?s1" "fmt s' = fmt ?s1"
        "length (parts s') = length (parts ?s1)" "pictures s' = pictures ?s1"
     and pa: "\<forall>j. parts s' ! j = (if Suc i \<le> j \<and> j < nat (i_output ?s1)
                                    then (parts ?s1 ! j)\<lparr>lock := lock (parts ?s1 ! j) + 1\<rparr>
                                    else parts ?s1 ! j)"
    by blast
  have "map (display_events ?s1) [Suc i..<nat (i_output s)]
          = map (display_events s) [Suc i..<nat (i_output s)]"
    by (rule map_cong) (simp_all add: display_events_def split: option.split)
  then have ev: "concat (map (display_events ?s1) [Suc i..<nat (i_output s)])
          = concat (map (display_events s) [Suc i..<nat (i_output s)])"
    by (rule arg_cong)
  have run: "display_loop i s = Inr s'"
    using c pp s' by (simp add: display_loop.simps[of i s])
  have lg': "log s' = log s @ concat (map (display_events s) [i..<nat (i_output s)])"
    using lg lt ev by (simp add: upt_conv_Cons)
  have pa': "\<forall>j. parts s' ! j = (if i \<le> j \<and> j < nat (i_output s)
                                    then (parts s ! j)\<lparr>lock := lock (parts s ! j) + 1\<rparr>
                                    else parts s ! j)"
    using pa b1 lt by (auto simp: nth_list_update)
  show ?case using run lg' pa' rest by simp
qed

lemma display_events_proj:
  "concat (map prepare_call (display_events s j)) = []"
  "concat (map wait_call (display_events s j)) = []"
  "concat (map post_call (display_events s j)) = [j]"
  by (cases "pictures s ! j";
      simp add: display_events_def prepare_call_def wait_call_def post_call_def)+

lemma Display_run:
  assumes "nat (i_output s) \<le> length (parts s)" "nat (i_output s) \<le> length (pictures s)"
  shows "\<exists>s'. vlc_vidsplit_Display s = Inr s'
           \<and> log s' = log s @ concat (map (display_events s) [0..<nat (i_output s)])
           \<and> i_output s' = i_output s \<and> sys_lock s' = sys_lock s \<and> fmt s' = fmt s
           \<and> length (parts s') = length (parts s) \<and> pictures s' = pictures s
           \<and> (\<forall>j. parts s' ! j = (if j < nat (i_output s)
                                    then (parts s ! j)\<lparr>lock := lock (parts s ! j) + 1\<rparr>
                                    else parts s ! j))"
  using display_loop_run[OF assms, of 0] by (simp add: vlc_vidsplit_Display_def)

lemma Prepare_success_run:
  assumes "nat (i_output s) \<le> length (parts s)" "nat (i_output s) \<le> length (pictures s)"
    and "\<not> sys_lock s" and "\<forall>j<nat (i_output s). 0 < lock (parts s ! j)"
    and "filter_rc env pic = 0"
  shows "\<exists>s1. vlc_vidsplit_Prepare env pic s = Inr s1
           \<and> log s1 = log s @ [PictureHold pic, MutexLock, SplitterFilter pic, MutexUnlock]
                @ concat (map (\<lambda>j. [SemWait j, SlotLoad j,
                                     DisplayPrepare j (display (parts s ! j)) (filter_out env pic j),
                                     SlotStore j]) [0..<nat (i_output s)])
           \<and> i_output s1 = i_output s \<and> \<not> sys_lock s1 \<and> fmt s1 = fmt s
           \<and> length (parts s1) = length (parts s) \<and> length (pictures s1) = length (pictures s)
           \<and> (\<forall>j. parts s1 ! j = (if j < nat (i_output s)
                                    then (parts s ! j)\<lparr>lock := lock (parts s ! j) - 1\<rparr>
                                    else parts s ! j))
           \<and> (\<forall>j<nat (i_output s). pictures s1 ! j =
                   display_Prepare env (display (parts s ! j)) (filter_out env pic j))"
proof -
  let ?s0 = "s\<lparr>pictures := map (filter_out env pic) [0..<length (pictures s)], sys_lock := False,
                log := log s @ [PictureHold pic, MutexLock, SplitterFilter pic, MutexUnlock]\<rparr>"
  have unf: "vlc_vidsplit_Prepare env pic s = prepare_loop env 0 ?s0"
    using assms(3,5)
    by (simp add: vlc_vidsplit_Prepare_def vlc_mutex_lock_def vlc_mutex_unlock_def
                  video_splitter_Filter_def emit_def)
  have "\<exists>s'. prepare_loop env 0 ?s0 = Inr s'
           \<and> log s' = log ?s0 @ concat (map (prepare_events env ?s0) [0..<nat (i_output ?s0)])
           \<and> i_output s' = i_output ?s0 \<and> sys_lock s' = sys_lock ?s0 \<and> fmt s' = fmt ?s0
           \<and> length (parts s') = length (parts ?s0) \<and> length (pictures s') = length (pictures ?s0)
           \<and> (\<forall>j. parts s' ! j = (if 0 \<le> j \<and> j < nat (i_output ?s0)
                                    then (parts ?s0 ! j)\<lparr>lock := lock (parts ?s0 ! j) - 1\<rparr>
                                    else parts ?s0 ! j))
           \<and> (\<forall>j. pictures s' ! j = (if 0 \<le> j \<and> j < nat (i_output ?s0)
                                    then display_Prepare env (display (parts ?s0 ! j)) (pictures ?s0 ! j)
                                    else pictures ?s0 ! j))"
    using assms(1,2,4) by (intro prepare_loop_run) simp_all
  then obtain s1 where run: "prepare_loop env 0 ?s0 = Inr s1"
    and lg: "log s1 = log ?s0 @ concat (map (prepare_events env ?s0) [0..<nat (i_output ?s0)])"
    and rest: "i_output s1 = i_output ?s0" "sys_lock s1 = sys_lock ?s0" "fmt s1 = fmt ?s0"
       "length (parts s1) = length (parts ?s0)" "length (pictures s1) = length (pictures ?s0)"
    and pa: "\<forall>j. parts s1 ! j = (if 0 \<le> j \<and> j < nat (i_output ?s0)
                                    then (parts ?s0 ! j)\<lparr>lock := lock (parts ?s0 ! j) - 1\<rparr>
                                    else parts ?s0 ! j)"
    and pi: "\<forall>j. pictures s1 ! j = (if 0 \<le> j \<and> j < nat (i_output ?s0)
                                    then display_Prepare env (display (parts ?s0 ! j)) (pictures ?s0 ! j)
                                    else pictures ?s0 ! j)"
    by blast
  have "map (prepare_events env ?s0) [0..<nat (i_output s)]
      = map (\<lambda>j. [SemWait j, SlotLoad j,
                   DisplayPrepare j (display (parts s ! j)) (filter_out env pic j),
                   SlotStore j]) [0..<nat (i_output s)]"
    using assms(2) by (intro map_cong) (simp_all add: prepare_events_def)
  then have ev: "concat (map (prepare_events env ?s0) [0..<nat (i_output s)])
      = concat (map (\<lambda>j. [SemWait j, SlotLoad j,
                   DisplayPrepare j (display (parts s ! j)) (filter_out env pic j),
                   SlotStore j]) [0..<nat (i_output s)])"
    by (rule arg_cong)
  have lg': "log s1 = log s @ [PictureHold pic, MutexLock, SplitterFilter pic, MutexUnlock]
                @ concat (map (\<lambda>j. [SemWait j, SlotLoad j,
                                     DisplayPrepare j (display (parts s ! j)) (filter_out env pic j),
                                     SlotStore j]) [0..<nat (i_output s)])"
    using lg ev by simp
  have pi': "\<forall>j<nat (i_output s). pictures s1 ! j =
                   display_Prepare env (display (parts s ! j)) (filter_out env pic j)"
    using pi assms(2) by simp
  show ?thesis using unf run lg' pa pi' rest by simp
qed

lemma adds_quiet_iff: "adds_quiet s s' \<longleftrightarrow> (\<exists>es. log s' = log s @ es \<and> list_all quiet es)"
proof
  assume "adds_quiet s s'"
  then have "log s' = log s @ drop (length (log s)) (log s')"
    and "list_all quiet (drop (length (log s)) (log s'))"
    by (simp_all add: adds_quiet_def) (metis append_take_drop_id)
  then show "\<exists>es. log s' = log s @ es \<and> list_all quiet es" by blast
next
  assume "\<exists>es. log s' = log s @ es \<and> list_all quiet es"
  then show "adds_quiet s s'" by (auto simp: adds_quiet_def)
qed

lemma adds_quiet_refl: "adds_quiet s s"
  by (simp add: adds_quiet_iff)

lemma adds_quiet_trans: "adds_quiet s s1 \<Longrightarrow> adds_quiet s1 s2 \<Longrightarrow> adds_quiet s s2"
  by (auto simp: adds_quiet_iff)

lemma guarded_quiet: "list_all quiet es \<Longrightarrow> guarded engine_call h es"
  by (induction es) (auto simp: quiet_def)

lemma guarded_append_quiet:
  "guarded engine_call h es \<Longrightarrow> list_all quiet es' \<Longrightarrow> guarded engine_call h (es @ es')"
  by (induction es arbitrary: h) (auto simp: guarded_quiet)

lemma sem_wait_quiet: "vlc_sem_wait i s = Inr s' \<Longrightarrow> adds_quiet s s'"
  by (auto simp: vlc_sem_wait_def emit_def adds_quiet_iff quiet_def engine_call_def
           split: if_splits)

lemma sem_post_quiet: "vlc_sem_post i s = Inr s' \<Longrightarrow> adds_quiet s s'"
  by (auto simp: vlc_sem_post_def emit_def adds_quiet_iff quiet_def engine_call_def
           split: if_splits)

lemma store_slot_quiet: "store_slot i v s = Inr s' \<Longrightarrow> adds_quiet s s'"
  by (auto simp: store_slot_def emit_def adds_quiet_iff quiet_def engine_call_def
           split: if_splits)

lemma prepare_part_quiet: "prepare_part env i s = Inr s' \<Longrightarrow> adds_quiet s s'"
  by (auto simp: prepare_part_def vlc_sem_wait_def load_slot_def store_slot_def emit_def
                 adds_quiet_iff quiet_def engine_call_def
           split: if_splits sum.splits)

lemma display_part_quiet: "display_part i s = Inr s' \<Longrightarrow> adds_quiet s s'"
  by (auto simp: display_part_def vlc_sem_post_def load_slot_def emit_def
                 adds_quiet_iff quiet_def engine_call_def
           split: if_splits sum.splits option.splits)

lemma clear_loop_quiet: "clear_loop i s = Inr s' \<Longrightarrow> adds_quiet s s'"
proof (induction i s rule: clear_loop.induct)
  case (1 i s)
  show ?case
  proof (cases "int i < i_output s")
    case False
    with "1.prems" show ?thesis by (simp add: clear_loop.simps[of i s] adds_quiet_refl)
  next
    case True
    with "1.prems" obtain s1 where a: "store_slot i None s = Inr s1"
      and b: "clear_loop (i + 1) s1 = Inr s'"
      by (auto simp: clear_loop.simps[of i s] split: sum.splits)
    from store_slot_quiet[OF a] "1.IH"[OF True a b] show ?thesis by (rule adds_quiet_trans)
  qed
qed

lemma prepare_loop_quiet: "prepare_loop env i s = Inr s' \<Longrightarrow> adds_quiet s s'"
proof (induction env i s rule: prepare_loop.induct)
  case (1 env i s)
  show ?case
  proof (cases "int i < i_output s")
    case False
    with "1.prems" show ?thesis by (simp add: prepare_loop.simps[of env i s] adds_quiet_refl)
  next
    case True
    with "1.prems" obtain s1 where a: "prepare_part env i s = Inr s1"
      and b: "prepare_loop env (i + 1) s1 = Inr s'"
      by (auto simp: prepare_loop.simps[of env i s] split: sum.splits)
    from prepare_part_quiet[OF a] "1.IH"[OF True a b] show ?thesis by (rule adds_quiet_trans)
  qed
qed

lemma display_loop_quiet: "display_loop i s = Inr s' \<Longrightarrow> adds_quiet s s'"
proof (induction i s rule: display_loop.induct)
  case (1 i s)
  show ?case
  proof (cases "int i < i_output s")
    case False
    with "1.prems" show ?thesis by (simp add: display_loop.simps[of i s] adds_quiet_refl)
  next
    case True
    with "1.prems" obtain s1 where a: "display_part i s = Inr s1"
      and b: "display_loop (i + 1) s1 = Inr s'"
      by (auto simp: display_loop.simps[of i s] split: sum.splits)
    from display_part_quiet[OF a] "1.IH"[OF True a b] show ?thesis by (rule adds_quiet_trans)
  qed
qed

lemma Prepare_guarded:
  assumes "vlc_vidsplit_Prepare env pic s = Inr s'"
  shows "guarded engine_call (sys_lock s) (new_events s s')"
proof -
  let ?s0 = "s\<lparr>pictures := map (filter_out env pic) [0..<length (pictures s)], sys_lock := False,
                log := log s @ [PictureHold pic, MutexLock, SplitterFilter pic, MutexUnlock]\<rparr>"
  have free: "\<not> sys_lock s"
    using assms by (auto simp: vlc_vidsplit_Prepare_def vlc_mutex_lock_def emit_def split: if_splits)
  then have "clear_loop 0 ?s0 = Inr s' \<or> prepare_loop env 0 ?s0 = Inr s'"
    using assms
    by (auto simp: vlc_vidsplit_Prepare_def vlc_mutex_lock_def vlc_mutex_unlock_def
                   video_splitter_Filter_def emit_def split: if_splits)
  then have "adds_quiet ?s0 s'"
    using clear_loop_quiet prepare_loop_quiet by blast
  then obtain es where "log s' = log s @ [PictureHold pic, MutexLock, SplitterFilter pic, MutexUnlock] @ es"
    and q: "list_all quiet es"
    by (auto simp: adds_quiet_iff)
  then have n: "new_events s s' = [PictureHold pic, MutexLock, SplitterFilter pic, MutexUnlock] @ es"
    by (simp add: new_events_def)
  have "guarded engine_call (sys_lock s) [PictureHold pic, MutexLock, SplitterFilter pic, MutexUnlock]"
    by (simp add: engine_call_def)
  then show ?thesis unfolding n using q by (rule guarded_append_quiet)
qed

lemma close_part_run:
  assumes "i < length (parts s)" "0 < lock (parts s ! i)"
  shows "close_part i s =
           Inr (s\<lparr>parts := (parts s)[i := (parts s ! i)\<lparr>display := None\<rparr>],
                  log := log s @ close_events (parts s ! i) i\<rparr>)"
  using assms
  by (cases "display (parts s ! i)")
     (simp_all add: close_part_def close_events_def vlc_sem_wait_def vlc_sem_post_def emit_def)

lemma close_loop_run:
  assumes "n \<le> length (parts s)"
    and "\<forall>j. i \<le> j \<and> j < n \<longrightarrow> 0 < lock (parts s ! j)"
  shows "\<exists>s'. close_loop n i s = Inr s'
           \<and> log s' = log s @ concat (map (\<lambda>j. close_events (parts s ! j) j) [i..<n])
           \<and> i_output s' = i_output s \<and> sys_lock s' = sys_lock s \<and> fmt s' = fmt s
           \<and> length (parts s') = length (parts s) \<and> pictures s' = pictures s
           \<and> (\<forall>j. parts s' ! j = (if i \<le> j \<and> j < n then (parts s ! j)\<lparr>display := None\<rparr>
                                    else parts s ! j))"
  using assms
proof (induction "n - i" arbitrary: i s)
  case 0
  then have le: "n \<le> i" by linarith
  then have "close_loop n i s = Inr s" by (simp add: close_loop.simps[of n i s])
  then show ?case using le by auto
next
  case (Suc k)
  then have lt: "i < n" by linarith
  have b1: "i < length (parts s)" using lt Suc.prems by linarith
  have lk: "0 < lock (parts s ! i)" using Suc.prems lt by simp
  let ?s1 = "s\<lparr>parts := (parts s)[i := (parts s ! i)\<lparr>display := None\<rparr>],
                  log := log s @ close_events (parts s ! i) i\<rparr>"
  have pp: "close_part i s = Inr ?s1"
    using close_part_run[OF b1 lk] .
  have k: "k = n - Suc i" using Suc.hyps by simp
  have "\<exists>s'. close_loop n (Suc i) ?s1 = Inr s'
           \<and> log s' = log ?s1 @ concat (map (\<lambda>j. close_events (parts ?s1 ! j) j) [Suc i..<n])
           \<and> i_output s' = i_output ?s1 \<and> sys_lock s' = sys_lock ?s1 \<and> fmt s' = fmt ?s1
           \<and> length (parts s') = length (parts ?s1) \<and> pictures s' = pictures ?s1
           \<and> (\<forall>j. parts s' ! j = (if Suc i \<le> j \<and> j < n then (parts ?s1 ! j)\<lparr>display := None\<rparr>
                                    else parts ?s1 ! j))"
    using Suc.prems by (intro Suc.hyps(1)[OF k]) simp_all
  then obtain s' where s': "close_loop n (Suc i) ?s1 = Inr s'"
     and lg: "log s' = log ?s1 @ concat (map (\<lambda>j. close_events (parts ?s1 ! j) j) [Suc i..<n])"
     and rest: "i_output s' = i_output ?s1" "sys_lock s' = sys_lock ?s1" "fmt s' = fmt ?s1"
        "length (parts s') = length (parts ?s1)" "pictures s' = pictures ?s1"
     and pa: "\<forall>j. parts s' ! j = (if Suc i \<le> j \<and> j < n then (parts ?s1 ! j)\<lparr>display := None\<rparr>
                                    else parts ?s1 ! j)"
    by blast
  have "map (\<lambda>j. close_events (parts ?s1 ! j) j) [Suc i..<n]
          = map (\<lambda>j. close_events (parts s ! j) j) [Suc i..<n]"
    by (rule map_cong) simp_all
  then have ev: "concat (map (\<lambda>j. close_events (parts ?s1 ! j) j) [Suc i..<n])
          = concat (map (\<lambda>j. close_events (parts s ! j) j) [Suc i..<n])"
    by (rule arg_cong)
  have run: "close_loop n i s = Inr s'"
    using lt pp s' by (simp add: close_loop.simps[of n i s])
  have lg': "log s' = log s @ concat (map (\<lambda>j. close_events (parts s ! j) j) [i..<n])"
    using lg lt ev by (simp add: upt_conv_Cons)
  have pa': "\<forall>j. parts s' ! j = (if i \<le> j \<and> j < n then (parts s ! j)\<lparr>display := None\<rparr>
                                    else parts s ! j)"
    using pa b1 lt by (auto simp: nth_list_update)
  show ?case using run lg' pa' rest by simp
qed

lemma Close_run:
  assumes "nat (i_output s) \<le> length (parts s)"
    and "\<forall>j<nat (i_output s). 0 < lock (parts s ! j)"
  shows "\<exists>s'. vlc_vidsplit_Close s = Inr s'
           \<and> log s' = log s @ concat (map (\<lambda>j. close_events (parts s ! j) j) [0..<nat (i_output s)])
                       @ [ModuleUnneed, FormatClean, ObjectDelete]
           \<and> i_output s' = i_output s \<and> sys_lock s' = sys_lock s \<and> fmt s' = fmt s
           \<and> length (parts s') = length (parts s) \<and> pictures s' = pictures s
           \<and> (\<forall>j. parts s' ! j = (if j < nat (i_output s) then (parts s ! j)\<lparr>display := None\<rparr>
                                    else parts s ! j))"
proof -
  have "\<exists>s'. close_loop (nat (i_output s)) 0 s = Inr s'
           \<and> log s' = log s @ concat (map (\<lambda>j. close_events (parts s ! j) j) [0..<nat (i_output s)])
           \<and> i_output s' = i_output s \<and> sys_lock s' = sys_lock s \<and> fmt s' = fmt s
           \<and> length (parts s') = length (parts s) \<and> pictures s' = pictures s
           \<and> (\<forall>j. parts s' ! j = (if 0 \<le> j \<and> j < nat (i_output s) then (parts s ! j)\<lparr>display := None\<rparr>
                                    else parts s ! j))"
    using assms by (intro close_loop_run) simp_all
  then show ?thesis
    by (auto simp: vlc_vidsplit_Close_def emit_def)
qed

lemma close_events_deletes:
  "concat (map delete_call (close_events p j)) = (case display p of None \<Rightarrow> [] | Some d \<Rightarrow> [d])"
  by (cases "display p") (simp_all add: close_events_def delete_call_def)

lemma part_all_fields:
  "p\<lparr>display := a, lock := b, width := c, height := d, window := e\<rparr>
     = \<lparr>window = e, display = a, lock = b, width = c, height = d\<rparr>"
  by (cases p) simp

lemma open_abort_run:
  assumes "i \<le> length (parts s)" and "\<forall>j<i. 0 < lock (parts s ! j)"
  shows "\<exists>s'. open_abort oe i s = Inr (VLC_EGENERIC oe, s')
           \<and> log s' = log s @ concat (map (\<lambda>j. close_events (parts s ! j) j) [0..<i])
                       @ [ModuleUnneed, FormatClean, ObjectDelete]
           \<and> i_output s' = int i \<and> fmt s' = fmt s"
proof -
  let ?s = "s\<lparr>i_output := int i\<rparr>"
  have h1: "nat (i_output ?s) \<le> length (parts ?s)" using assms(1) by simp
  have h2: "\<forall>j<nat (i_output ?s). 0 < lock (parts ?s ! j)" using assms(2) by simp
  from Close_run[OF h1 h2] show ?thesis
    by (auto simp: open_abort_def)
qed

lemma open_part_ok:
  assumes "i < length (parts s)" and "part_ok oe i"
  shows "open_part oe i s =
           Inr (Inr (s\<lparr>parts := (parts s)[i := part_built oe i],
                        log := log s @ round_events oe i\<rparr>))"
proof -
  from assms(2) obtain h y where w: "window_New oe i = Some h" and e: "window_Enable oe h = 0"
    and d: "display_New oe i (Some h) 1 1 = Some y"
    by (auto simp: part_ok_def split: option.splits)
  show ?thesis
    using assms(1) w e d
    by (simp add: open_part_def video_splitter_CreateWindow_def vlc_sem_wait_def vlc_sem_post_def
                  emit_def Let_def part_built_def round_events_def part_all_fields)
qed

lemma open_part_fail:
  assumes "i < length (parts s)" and "\<not> part_ok oe i" and "\<forall>j<i. 0 < lock (parts s ! j)"
  shows "\<exists>s'. open_part oe i s = Inr (Inl (VLC_EGENERIC oe, s'))
           \<and> log s' = log s @ round_events oe i
                       @ concat (map (\<lambda>j. close_events (parts s ! j) j) [0..<i])
                       @ [ModuleUnneed, FormatClean, ObjectDelete]
           \<and> i_output s' = int i \<and> fmt s' = fmt s"
proof -
  let ?p = "(parts s ! i)\<lparr>display := None, lock := 1, width := 1, height := 1\<rparr>"
  have ab: "\<And>t. length (parts t) = length (parts s) \<Longrightarrow> \<forall>j<i. parts t ! j = parts s ! j
               \<Longrightarrow> fmt t = fmt s
               \<Longrightarrow> \<exists>s'. open_abort oe i t = Inr (VLC_EGENERIC oe, s')
                     \<and> log s' = log t @ concat (map (\<lambda>j. close_events (parts s ! j) j) [0..<i])
                                 @ [ModuleUnneed, FormatClean, ObjectDelete]
                     \<and> i_output s' = int i \<and> fmt s' = fmt s"
  proof -
    fix t :: vout_display_sys_t
    assume l: "length (parts t) = length (parts s)" and p: "\<forall>j<i. parts t ! j = parts s ! j"
      and f: "fmt t = fmt s"
    have h1: "i \<le> length (parts t)" using assms(1) l by simp
    have h2: "\<forall>j<i. 0 < lock (parts t ! j)" using assms(3) p by simp
    have "map (\<lambda>j. close_events (parts t ! j) j) [0..<i]
           = map (\<lambda>j. close_events (parts s ! j) j) [0..<i]"
      using p by (intro map_cong) simp_all
    then have same: "concat (map (\<lambda>j. close_events (parts t ! j) j) [0..<i])
           = concat (map (\<lambda>j. close_events (parts s ! j) j) [0..<i])"
      by (rule arg_cong)
    from open_abort_run[OF h1 h2, of oe] show "\<exists>s'. open_abort oe i t = Inr (VLC_EGENERIC oe, s')
                     \<and> log s' = log t @ concat (map (\<lambda>j. close_events (parts s ! j) j) [0..<i])
                                 @ [ModuleUnneed, FormatClean, ObjectDelete]
                     \<and> i_output s' = int i \<and> fmt s' = fmt s"
      unfolding same using f by simp
  qed
  show ?thesis
  proof (cases "window_New oe i")
    case None
    let ?t = "s\<lparr>log := log s @ [WindowNew i None],
                parts := (parts s)[i := ?p\<lparr>window := None\<rparr>]\<rparr>"
    have u: "open_part oe i s = (case open_abort oe i ?t of Inl e \<Rightarrow> Inl e | Inr r \<Rightarrow> Inr (Inl r))"
      using assms(1) None
      by (simp add: open_part_def video_splitter_CreateWindow_def emit_def Let_def)
    have "\<exists>s'. open_abort oe i ?t = Inr (VLC_EGENERIC oe, s')
                     \<and> log s' = log ?t @ concat (map (\<lambda>j. close_events (parts s ! j) j) [0..<i])
                                 @ [ModuleUnneed, FormatClean, ObjectDelete]
                     \<and> i_output s' = int i \<and> fmt s' = fmt s"
      by (rule ab) simp_all
    then show ?thesis
      unfolding u using None by (auto simp: round_events_def)
  next
    case (Some h)
    show ?thesis
    proof (cases "window_Enable oe h = 0")
      case False
      let ?t = "s\<lparr>log := log s @ [WindowNew i (Some h), WindowEnable h (window_Enable oe h),
                                   WindowDelete (Some h)],
                  parts := (parts s)[i := ?p\<lparr>window := None\<rparr>]\<rparr>"
      have u: "open_part oe i s = (case open_abort oe i ?t of Inl e \<Rightarrow> Inl e | Inr r \<Rightarrow> Inr (Inl r))"
        using assms(1) Some False
        by (simp add: open_part_def video_splitter_CreateWindow_def emit_def Let_def)
      have "\<exists>s'. open_abort oe i ?t = Inr (VLC_EGENERIC oe, s')
                     \<and> log s' = log ?t @ concat (map (\<lambda>j. close_events (parts s ! j) j) [0..<i])
                                 @ [ModuleUnneed, FormatClean, ObjectDelete]
                     \<and> i_output s' = int i \<and> fmt s' = fmt s"
        by (rule ab) simp_all
      then show ?thesis
        unfolding u using Some False by (auto simp: round_events_def)
    next
      case True
      with assms(2) Some have d: "display_New oe i (Some h) 1 1 = None"
        by (simp add: part_ok_def)
      let ?t = "s\<lparr>parts := (parts s)[i := (parts s ! i)\<lparr>display := None, width := 1, height := 1,
                                                         window := Some h, lock := 1\<rparr>],
                  log := log s @ [WindowNew i (Some h), WindowEnable h 0, SemWait i,
                                   DisplayNew i (Some h) 1 1 None, SemPost i,
                                   WindowDisable (Some h), WindowDelete (Some h)]\<rparr>"
      have u: "open_part oe i s = (case open_abort oe i ?t of Inl e \<Rightarrow> Inl e | Inr r \<Rightarrow> Inr (Inl r))"
        using assms(1) Some True d
        by (simp add: open_part_def video_splitter_CreateWindow_def vlc_sem_wait_def
                      vlc_sem_post_def emit_def Let_def)
      have "\<exists>s'. open_abort oe i ?t = Inr (VLC_EGENERIC oe, s')
                     \<and> log s' = log ?t @ concat (map (\<lambda>j. close_events (parts s ! j) j) [0..<i])
                                 @ [ModuleUnneed, FormatClean, ObjectDelete]
                     \<and> i_output s' = int i \<and> fmt s' = fmt s"
        by (rule ab) simp_all
      then show ?thesis
        unfolding u using Some True d by (auto simp: round_events_def)
    qed
  qed
qed

lemma open_loop_total:
  assumes "nat (i_output s) \<le> length (parts s)" and "\<forall>j<i. 0 < lock (parts s ! j)"
  shows "\<exists>r. open_loop oe i s = Inr r
           \<and> (case r of
                 Inl (c, s') \<Rightarrow> c = VLC_EGENERIC oe \<and> (\<exists>es. log s' = log s @ es)
                               \<and> (\<exists>k. i \<le> k \<and> k < nat (i_output s) \<and> \<not> part_ok oe k)
               | Inr s' \<Rightarrow> fmt s' = fmt s \<and> i_output s' = i_output s
                           \<and> (\<exists>es. log s' = log s @ es)
                           \<and> length (parts s') = length (parts s)
                           \<and> (\<forall>j. i \<le> j \<and> j < nat (i_output s) \<longrightarrow> part_ok oe j)
                           \<and> (\<forall>j. parts s' ! j = (if i \<le> j \<and> j < nat (i_output s)
                                                   then part_built oe j else parts s ! j)))"
  using assms
proof (induction "nat (i_output s) - i" arbitrary: i s)
  case 0
  then have le: "nat (i_output s) \<le> i" by linarith
  then have "\<not> int i < i_output s" by linarith
  then have "open_loop oe i s = Inr (Inr s)" by (simp add: open_loop.simps[of oe i s])
  then show ?case using le by auto
next
  case (Suc k)
  then have lt: "i < nat (i_output s)" by linarith
  then have c: "int i < i_output s" by linarith
  have b: "i < length (parts s)" using lt Suc.prems by linarith
  show ?case
  proof (cases "part_ok oe i")
    case False
    from open_part_fail[OF b False Suc.prems(2)] obtain s' where
      o: "open_part oe i s = Inr (Inl (VLC_EGENERIC oe, s'))"
      and l: "\<exists>es. log s' = log s @ es"
      by blast
    have w: "\<exists>k. i \<le> k \<and> k < nat (i_output s) \<and> \<not> part_ok oe k"
      using False lt by blast
    show ?thesis using o l w c by (simp add: open_loop.simps[of oe i s])
  next
    case True
    let ?s1 = "s\<lparr>parts := (parts s)[i := part_built oe i], log := log s @ round_events oe i\<rparr>"
    have pp: "open_part oe i s = Inr (Inr ?s1)" using open_part_ok[OF b True] .
    have k: "k = nat (i_output ?s1) - Suc i" using Suc.hyps by simp
    have h1: "nat (i_output ?s1) \<le> length (parts ?s1)" using Suc.prems by simp
    have h2: "\<forall>j<Suc i. 0 < lock (parts ?s1 ! j)"
      using Suc.prems(2) b by (auto simp: nth_list_update part_built_def)
    from Suc.hyps(1)[OF k h1 h2] obtain r where r: "open_loop oe (Suc i) ?s1 = Inr r"
      and cr: "case r of
                 Inl (c, s') \<Rightarrow> c = VLC_EGENERIC oe \<and> (\<exists>es. log s' = log ?s1 @ es)
                               \<and> (\<exists>k. Suc i \<le> k \<and> k < nat (i_output ?s1) \<and> \<not> part_ok oe k)
               | Inr s' \<Rightarrow> fmt s' = fmt ?s1 \<and> i_output s' = i_output ?s1
                           \<and> (\<exists>es. log s' = log ?s1 @ es)
                           \<and> length (parts s') = length (parts ?s1)
                           \<and> (\<forall>j. Suc i \<le> j \<and> j < nat (i_output ?s1) \<longrightarrow> part_ok oe j)
                           \<and> (\<forall>j. parts s' ! j = (if Suc i \<le> j \<and> j < nat (i_output ?s1)
                                                   then part_built oe j else parts ?s1 ! j))"
      by blast
    have run: "open_loop oe i s = Inr r"
      using c pp r by (simp add: open_loop.simps[of oe i s])
    show ?thesis
    proof (cases r)
      case (Inl a)
      obtain c' s' where a: "a = (c', s')" by (cases a)
      have c1: "c' = VLC_EGENERIC oe" and l1: "\<exists>es. log s' = log ?s1 @ es"
        and k1: "\<exists>k. Suc i \<le> k \<and> k < nat (i_output s) \<and> \<not> part_ok oe k"
        using cr Inl a by simp_all
      from l1 have l: "\<exists>es. log s' = log s @ es" by auto
      from k1 have w: "\<exists>k. i \<le> k \<and> k < nat (i_output s) \<and> \<not> part_ok oe k"
        using Suc_leD by blast
      show ?thesis using run Inl a c1 l w by simp
    next
      case (Inr s')
      have ok: "\<forall>j. i \<le> j \<and> j < nat (i_output s) \<longrightarrow> part_ok oe j"
      proof (intro allI impI)
        fix j assume "i \<le> j \<and> j < nat (i_output s)"
        then show "part_ok oe j" using cr Inr True by (cases "j = i") auto
      qed
      have pa: "\<forall>j. parts s' ! j = (if i \<le> j \<and> j < nat (i_output s)
                                                   then part_built oe j else parts s ! j)"
        using cr Inr b lt by (auto simp: nth_list_update)
      have l: "\<exists>es. log s' = log s @ es" using cr Inr by auto
      show ?thesis using run cr Inr ok pa l by simp
    qed
  qed
qed

lemma open_loop_fail_at:
  assumes "k < nat (i_output s)" and "nat (i_output s) \<le> length (parts s)" and "i \<le> k"
    and "\<forall>j. i \<le> j \<and> j < k \<longrightarrow> part_ok oe j" and "\<not> part_ok oe k"
    and "\<forall>j<i. parts s ! j = part_built oe j"
  shows "\<exists>s'. open_loop oe i s = Inr (Inl (VLC_EGENERIC oe, s'))
           \<and> log s' = log s @ concat (map (round_events oe) [i..<k]) @ round_events oe k
                       @ concat (map (\<lambda>j. close_events (part_built oe j) j) [0..<k])
                       @ [ModuleUnneed, FormatClean, ObjectDelete]
           \<and> i_output s' = int k \<and> fmt s' = fmt s"
  using assms
proof (induction "k - i" arbitrary: i s)
  case 0
  then have ik: "i = k" by linarith
  have c: "int k < i_output s" using "0.prems"(1) by linarith
  have b: "k < length (parts s)" using "0.prems"(1,2) by linarith
  have lk: "\<forall>j<k. 0 < lock (parts s ! j)"
    using "0.prems"(6) ik by (simp add: part_built_def)
  have "map (\<lambda>j. close_events (parts s ! j) j) [0..<k]
      = map (\<lambda>j. close_events (part_built oe j) j) [0..<k]"
    using "0.prems"(6) ik by (intro map_cong) simp_all
  then have same: "concat (map (\<lambda>j. close_events (parts s ! j) j) [0..<k])
      = concat (map (\<lambda>j. close_events (part_built oe j) j) [0..<k])"
    by (rule arg_cong)
  from open_part_fail[OF b "0.prems"(5) lk] obtain s' where
    "open_part oe k s = Inr (Inl (VLC_EGENERIC oe, s'))"
    "log s' = log s @ round_events oe k
                       @ concat (map (\<lambda>j. close_events (parts s ! j) j) [0..<k])
                       @ [ModuleUnneed, FormatClean, ObjectDelete]"
    "i_output s' = int k" "fmt s' = fmt s"
    by blast
  then show ?case
    unfolding same using c ik by (simp add: open_loop.simps[of oe k s])
next
  case (Suc d)
  then have lt: "i < k" by linarith
  then have c: "int i < i_output s" using Suc.prems(1) by linarith
  have b: "i < length (parts s)" using lt Suc.prems(1,2) by linarith
  have ok: "part_ok oe i" using Suc.prems(4) lt by simp
  let ?s1 = "s\<lparr>parts := (parts s)[i := part_built oe i], log := log s @ round_events oe i\<rparr>"
  have pp: "open_part oe i s = Inr (Inr ?s1)" using open_part_ok[OF b ok] .
  have d: "d = k - Suc i" using Suc.hyps by simp
  have h1: "k < nat (i_output ?s1)" using Suc.prems(1) by simp
  have h2: "nat (i_output ?s1) \<le> length (parts ?s1)" using Suc.prems(2) by simp
  have h3: "Suc i \<le> k" using lt by simp
  have h4: "\<forall>j. Suc i \<le> j \<and> j < k \<longrightarrow> part_ok oe j" using Suc.prems(4) by simp
  have h6: "\<forall>j<Suc i. parts ?s1 ! j = part_built oe j"
    using Suc.prems(6) b by (auto simp: nth_list_update less_Suc_eq)
  from Suc.hyps(1)[OF d h1 h2 h3 h4 Suc.prems(5) h6] obtain s' where
    r: "open_loop oe (Suc i) ?s1 = Inr (Inl (VLC_EGENERIC oe, s'))"
    and lg: "log s' = log ?s1 @ concat (map (round_events oe) [Suc i..<k]) @ round_events oe k
                       @ concat (map (\<lambda>j. close_events (part_built oe j) j) [0..<k])
                       @ [ModuleUnneed, FormatClean, ObjectDelete]"
    and rest: "i_output s' = int k" "fmt s' = fmt ?s1"
    by blast
  have run: "open_loop oe i s = Inr (Inl (VLC_EGENERIC oe, s'))"
    using c pp r by (simp add: open_loop.simps[of oe i s])
  have lg': "log s' = log s @ concat (map (round_events oe) [i..<k]) @ round_events oe k
                       @ concat (map (\<lambda>j. close_events (part_built oe j) j) [0..<k])
                       @ [ModuleUnneed, FormatClean, ObjectDelete]"
    using lg lt by (simp add: upt_conv_Cons)
  show ?case using run lg' rest by simp
qed

lemma Open_unfold:
  assumes "\<not> cfg_IsWindowed oe" and "var_InheritString oe = Some name" and "object_create oe"
    and "module_need oe name = Some n" and "pictures_malloc oe" and "parts_malloc oe"
  shows "vlc_vidsplit_Open oe fmtp0 =
           (case open_loop oe 0 (open_start oe n) of
              Inl e \<Rightarrow> Inl e
            | Inr (Inl (r, s5)) \<Rightarrow> Inr \<lparr>rc = r, ops = False, fmtp = ORIENT_NORMAL, sys = Some s5\<rparr>
            | Inr (Inr s5) \<Rightarrow> Inr \<lparr>rc = VLC_SUCCESS, ops = True, fmtp = ORIENT_NORMAL, sys = Some s5\<rparr>)"
  using assms by (simp add: vlc_vidsplit_Open_def open_start_def emit_def Let_def)

lemma round_events_ok:
  assumes "part_ok oe j"
  shows "concat (map window_created (round_events oe j))
           = (case window_New oe j of None \<Rightarrow> [] | Some h \<Rightarrow> [h])"
    and "concat (map window_deleted (round_events oe j)) = []"
    and "concat (map display_created (round_events oe j))
           = (case display (part_built oe j) of None \<Rightarrow> [] | Some d \<Rightarrow> [d])"
    and "concat (map delete_call (round_events oe j)) = []"
  using assms
  by (auto simp: part_ok_def round_events_def part_built_def window_created_def window_deleted_def
                 display_created_def delete_call_def split: option.splits)

lemma round_events_fail:
  assumes "\<not> part_ok oe k"
  shows "concat (map window_created (round_events oe k))
           = (case window_New oe k of None \<Rightarrow> [] | Some h \<Rightarrow> [h])"
    and "concat (map window_deleted (round_events oe k))
           = (case window_New oe k of None \<Rightarrow> [] | Some h \<Rightarrow> [h])"
    and "concat (map display_created (round_events oe k)) = []"
    and "concat (map delete_call (round_events oe k)) = []"
  using assms
  by (auto simp: part_ok_def round_events_def window_created_def window_deleted_def
                 display_created_def delete_call_def split: option.splits)

lemma close_events_built:
  "concat (map window_created (close_events (part_built oe j) j)) = []"
  "concat (map window_deleted (close_events (part_built oe j) j))
           = (case window_New oe j of None \<Rightarrow> [] | Some h \<Rightarrow> [h])"
  "concat (map display_created (close_events (part_built oe j) j)) = []"
  by (auto simp: close_events_def part_built_def window_created_def window_deleted_def
                 display_created_def split: option.splits)

lemma concat_map_cong:
  "(\<And>x. x \<in> set xs \<Longrightarrow> f x = g x) \<Longrightarrow> concat (map f xs) = concat (map g xs)"
  by (induction xs) simp_all

lemma Close_nothing:
  "vlc_vidsplit_Close (s\<lparr>i_output := 0\<rparr>)
     = Inr (s\<lparr>i_output := 0, log := log s @ [ModuleUnneed, FormatClean, ObjectDelete]\<rparr>)"
  by (simp add: vlc_vidsplit_Close_def close_loop.simps[of 0 0] emit_def)

lemma open_succeeds_past_checks:
  assumes "\<not> cfg_IsWindowed oe" and "var_InheritString oe = Some name" and "object_create oe"
  shows "open_succeeds oe =
           (case module_need oe name of
              None \<Rightarrow> False
            | Some n \<Rightarrow> pictures_malloc oe \<and> parts_malloc oe \<and> (\<forall>j<nat n. part_ok oe j))"
  using assms by (auto simp: open_succeeds_def list_all_iff split: option.split)

lemma Open_before_checks:
  assumes "cfg_IsWindowed oe \<or> var_InheritString oe = None \<or> \<not> object_create oe"
  shows "\<exists>r. vlc_vidsplit_Open oe fmtp0 = Inr r \<and> fmtp r = fmtp0 \<and> sys r = None \<and> \<not> ops r
           \<and> \<not> open_succeeds oe \<and> (rc r = VLC_EGENERIC oe \<or> rc r = VLC_ENOMEM oe)"
  using assms
  by (cases "var_InheritString oe") (auto simp: vlc_vidsplit_Open_def open_succeeds_def)

lemma Open_past_checks:
  assumes "\<not> cfg_IsWindowed oe" and "var_InheritString oe = Some name" and "object_create oe"
  shows "\<exists>r s. vlc_vidsplit_Open oe fmtp0 = Inr r \<and> fmtp r = ORIENT_NORMAL
           \<and> sys r = Some s \<and> take 1 (log s) = [ModuleNeed ORIENT_NORMAL]
           \<and> ops r = open_succeeds oe
           \<and> (if ops r
               then rc r = VLC_SUCCESS \<and> fmt s = ORIENT_NORMAL
                    \<and> module_need oe name = Some (i_output s)
                    \<and> length (parts s) = nat (i_output s)
                    \<and> (\<forall>j<nat (i_output s). parts s ! j = part_built oe j
                                              \<and> window (parts s ! j) \<noteq> None
                                              \<and> display (parts s ! j) \<noteq> None)
               else rc r = VLC_EGENERIC oe \<or> rc r = VLC_ENOMEM oe)"
proof (cases "module_need oe name")
  case None
  with assms open_succeeds_past_checks[OF assms] show ?thesis
    by (simp add: vlc_vidsplit_Open_def emit_def Let_def)
next
  case (Some n)
  show ?thesis
  proof (cases "pictures_malloc oe \<and> parts_malloc oe")
    case False
    with assms Some open_succeeds_past_checks[OF assms] show ?thesis
      by (auto simp: vlc_vidsplit_Open_def emit_def Let_def Close_nothing)
  next
    case True
    let ?s = "open_start oe n"
    have su: "open_succeeds oe = (\<forall>j<nat n. part_ok oe j)"
      using open_succeeds_past_checks[OF assms] Some True by simp
    have h1: "nat (i_output ?s) \<le> length (parts ?s)" and h2: "\<forall>j<0. 0 < lock (parts ?s ! j)"
      by (simp_all add: open_start_def)
    from open_loop_total[OF h1 h2, of oe] obtain r where r: "open_loop oe 0 ?s = Inr r"
      and cr: "case r of
                 Inl (c, s') \<Rightarrow> c = VLC_EGENERIC oe \<and> (\<exists>es. log s' = log ?s @ es)
                               \<and> (\<exists>k. 0 \<le> k \<and> k < nat (i_output ?s) \<and> \<not> part_ok oe k)
               | Inr s' \<Rightarrow> fmt s' = fmt ?s \<and> i_output s' = i_output ?s
                           \<and> (\<exists>es. log s' = log ?s @ es)
                           \<and> length (parts s') = length (parts ?s)
                           \<and> (\<forall>j. 0 \<le> j \<and> j < nat (i_output ?s) \<longrightarrow> part_ok oe j)
                           \<and> (\<forall>j. parts s' ! j = (if 0 \<le> j \<and> j < nat (i_output ?s)
                                                   then part_built oe j else parts ?s ! j))"
      by blast
    have u: "vlc_vidsplit_Open oe fmtp0 =
           (case open_loop oe 0 ?s of
              Inl e \<Rightarrow> Inl e
            | Inr (Inl (r, s5)) \<Rightarrow> Inr \<lparr>rc = r, ops = False, fmtp = ORIENT_NORMAL, sys = Some s5\<rparr>
            | Inr (Inr s5) \<Rightarrow> Inr \<lparr>rc = VLC_SUCCESS, ops = True, fmtp = ORIENT_NORMAL, sys = Some s5\<rparr>)"
      using Open_unfold[OF assms Some] True by simp
    show ?thesis
    proof (cases r)
      case (Inl a)
      obtain c' s' where a: "a = (c', s')" by (cases a)
      have c1: "c' = VLC_EGENERIC oe" and l1: "\<exists>es. log s' = log ?s @ es"
        and k1: "\<exists>k. k < nat n \<and> \<not> part_ok oe k"
        using cr Inl a by (simp_all add: open_start_def)
      from l1 have t1: "take 1 (log s') = [ModuleNeed ORIENT_NORMAL]"
        by (auto simp: open_start_def)
      from k1 have ns: "\<not> open_succeeds oe" using su by blast
      show ?thesis using u r Inl a c1 t1 ns by simp
    next
      case (Inr s')
      have l1: "\<exists>es. log s' = log ?s @ es" using cr Inr by simp
      then have t1: "take 1 (log s') = [ModuleNeed ORIENT_NORMAL]"
        by (auto simp: open_start_def)
      have ys: "open_succeeds oe" using su cr Inr by (simp add: open_start_def)
      have io: "i_output s' = n" and len: "length (parts s') = nat n"
        and f: "fmt s' = ORIENT_NORMAL"
        using cr Inr by (simp_all add: open_start_def)
      have b: "\<forall>j<nat (i_output s'). parts s' ! j = part_built oe j
                 \<and> window (parts s' ! j) \<noteq> None \<and> display (parts s' ! j) \<noteq> None"
        using cr Inr
        by (auto simp: open_start_def part_ok_def part_built_def split: option.splits)
      let ?r = "\<lparr>rc = VLC_SUCCESS, ops = True, fmtp = ORIENT_NORMAL, sys = Some s'\<rparr>"
      have o: "vlc_vidsplit_Open oe fmtp0 = Inr ?r" using u r Inr by simp
      have m: "module_need oe name = Some (i_output s')" using Some io by simp
      have l: "length (parts s') = nat (i_output s')" using len io by simp
      have i: "if ops ?r
               then rc ?r = VLC_SUCCESS \<and> fmt s' = ORIENT_NORMAL
                    \<and> module_need oe name = Some (i_output s')
                    \<and> length (parts s') = nat (i_output s')
                    \<and> (\<forall>j<nat (i_output s'). parts s' ! j = part_built oe j
                                              \<and> window (parts s' ! j) \<noteq> None
                                              \<and> display (parts s' ! j) \<noteq> None)
               else rc ?r = VLC_EGENERIC oe \<or> rc ?r = VLC_ENOMEM oe"
        using f m l b by (simp only: open_result.simps if_True simp_thms)
      have e: "ops ?r = open_succeeds oe" using ys by simp
      have a1: "fmtp ?r = ORIENT_NORMAL" and a2: "sys ?r = Some s'" by simp_all
      from o a1 a2 t1 e i show ?thesis by blast
    qed
  qed
qed

subsection \<open>Window callbacks\<close>

text \<open>
  C7. Resize callback. When the part's semaphore can be taken, the handler returns, and
  what it did is, in this order: wait on the semaphore; store the new width and height;
  call \<open>vout_display_SetSize\<close> with the new size exactly when a display is bound; call
  the acknowledgement callback when one was given, at a moment where the part already
  holds the new size and the semaphore is still taken; post the semaphore.
\<close>

theorem window_Resized_under_guard:
  assumes "i < length (parts s)" and "0 < lock (parts s ! i)"
  shows "vlc_vidsplit_window_Resized i w h cb s =
           Inr (s\<lparr>parts := (parts s)[i := (parts s ! i)\<lparr>width := w, height := h\<rparr>],
                  log := log s @ [SemWait i]
                     @ (case display (parts s ! i) of
                          None \<Rightarrow> []
                        | Some d \<Rightarrow> [DisplaySetSize d w h])
                     @ (if cb then [AckCallback i w h
                                      ((parts s ! i)\<lparr>lock := lock (parts s ! i) - 1,
                                                     width := w, height := h\<rparr>)]
                        else [])
                     @ [SemPost i]\<rparr>)"
  using assms
  by (cases "display (parts s ! i)")
     (simp_all add: vlc_vidsplit_window_Resized_def vlc_sem_wait_def vlc_sem_post_def emit_def)

theorem window_Resized_under_guard_witness:
  "vlc_vidsplit_window_Resized 0 640 480 True demo_sys =
     Inr (demo_sys\<lparr>parts := [\<lparr>window = Some 7, display = Some 3, lock = 1,
                                 width = 640, height = 480\<rparr>,
                               \<lparr>window = Some 8, display = Some 4, lock = 1,
                                 width = 1, height = 1\<rparr>],
                    log := [SemWait 0, DisplaySetSize 3 640 480,
                            AckCallback 0 640 480
                              \<lparr>window = Some 7, display = Some 3, lock = 0,
                                width = 640, height = 480\<rparr>,
                            SemPost 0]\<rparr>)"
  using window_Resized_under_guard [of 0 demo_sys 640 480 True]
  by (simp add: demo_sys_def)

text \<open>
  C8. Mouse callback. When the mutex can be taken, the handler returns; the structure the
  caller passed is as it was; the splitter is handed the local copy, and that copy, as
  the splitter left it, goes to the window's event sink exactly when the splitter
  returned \<open>VLC_SUCCESS\<close>.
\<close>

theorem window_MouseEvent_private_copy:
  assumes "\<not> sys_lock s"
  shows "\<exists>f s'. vlc_vidsplit_window_MouseEvent env i e s = Inr (f, s')
           \<and> caller_e f = e
           \<and> ev f = snd (splitter_Mouse env i e)
           \<and> new_events s s' =
               [MutexLock, SplitterMouse i e]
               @ (if fst (splitter_Mouse env i e) = VLC_SUCCESS
                  then [WindowSendMouseEvent (snd (splitter_Mouse env i e))] else [])
               @ [MutexUnlock]"
  using assms
  by (cases "splitter_Mouse env i e")
     (simp add: vlc_vidsplit_window_MouseEvent_def vlc_mutex_lock_def vlc_mutex_unlock_def
                emit_def new_events_def Let_def)

theorem window_MouseEvent_private_copy_witness:
  "\<not> sys_lock demo_sys
   \<and> (\<exists>f s'. vlc_vidsplit_window_MouseEvent demo_env 1
                \<lparr>ev_type = 0, ev_x = 150, ev_y = 20\<rparr> demo_sys = Inr (f, s')
           \<and> caller_e f = \<lparr>ev_type = 0, ev_x = 150, ev_y = 20\<rparr>
           \<and> ev f = \<lparr>ev_type = 0, ev_x = 50, ev_y = 20\<rparr>
           \<and> new_events demo_sys s' =
               [MutexLock, SplitterMouse 1 \<lparr>ev_type = 0, ev_x = 150, ev_y = 20\<rparr>,
                WindowSendMouseEvent \<lparr>ev_type = 0, ev_x = 50, ev_y = 20\<rparr>, MutexUnlock])"
  using window_MouseEvent_private_copy
          [of demo_sys demo_env 1 "\<lparr>ev_type = 0, ev_x = 150, ev_y = 20\<rparr>"]
  by (simp add: demo_sys_def demo_env_def VLC_SUCCESS_def)

subsection \<open>The render cycle when the filter fails\<close>

text \<open>
  C1. With a failing filter, \<open>prepare\<close> clears the slots and waits on no semaphore, and
  no display is called in the cycle; but \<open>display\<close> still posts the semaphore of every
  part, so a cycle that took nothing leaves each count one higher (here 2 instead of 1).
\<close>

theorem failed_cycle_posts_semaphores:
  "render_cycle demo_env_fail 5 demo_sys =
     Inr (demo_sys\<lparr>parts := [\<lparr>window = Some 7, display = Some 3, lock = 2,
                                 width = 1, height = 1\<rparr>,
                               \<lparr>window = Some 8, display = Some 4, lock = 2,
                                 width = 1, height = 1\<rparr>],
                    log := [PictureHold 5, MutexLock, SplitterFilter 5, MutexUnlock,
                            SlotStore 0, SlotStore 1,
                            SlotLoad 0, SemPost 0, SlotLoad 1, SemPost 1]\<rparr>)"
  by (simp add: render_cycle_def vlc_vidsplit_Prepare_def vlc_vidsplit_Display_def
                demo_env_fail_def demo_env_def demo_sys_def
                vlc_mutex_lock_def vlc_mutex_unlock_def video_splitter_Filter_def
                clear_loop.simps display_loop.simps display_part_def
                store_slot_def load_slot_def vlc_sem_post_def emit_def)

subsection \<open>The render cycle when the filter succeeds\<close>

text \<open>
  C5. A cycle on a coordinator whose mutex and semaphores are free, with a filter that
  succeeds, returns from both phases. \<open>prepare\<close> waits once on every semaphore, in index
  order, and posts none; every part that has a display gets one \<open>vout_display_Prepare\<close>
  call there, in index order, and no \<open>vout_display_Display\<close>. \<open>display\<close> posts every
  semaphore once, in index order, and waits on none; of the parts that have a display,
  those whose slot holds a picture after \<open>prepare\<close> get one \<open>vout_display_Display\<close> call,
  in index order, and the others get none.
\<close>

theorem successful_cycle_calls:
  assumes "nat (i_output s) \<le> length (parts s)" and "nat (i_output s) \<le> length (pictures s)"
    and "\<not> sys_lock s" and "\<forall>j<nat (i_output s). 0 < lock (parts s ! j)"
    and "filter_rc env pic = 0"
  shows "\<exists>s1 s2. vlc_vidsplit_Prepare env pic s = Inr s1 \<and> vlc_vidsplit_Display s1 = Inr s2
           \<and> prepares (new_events s s1) = bound_displays s
           \<and> presents (new_events s s1) = []
           \<and> waits (new_events s s1) = [0..<nat (i_output s)]
           \<and> posts (new_events s s1) = []
           \<and> prepares (new_events s1 s2) = []
           \<and> presents (new_events s1 s2) =
               filter (\<lambda>(i, d). display_Prepare env (Some d) (filter_out env pic i) \<noteq> None)
                 (bound_displays s)
           \<and> waits (new_events s1 s2) = []
           \<and> posts (new_events s1 s2) = [0..<nat (i_output s)]"
proof -
  let ?n = "nat (i_output s)"
  let ?pe = "\<lambda>j. [SemWait j, SlotLoad j,
                  DisplayPrepare j (display (parts s ! j)) (filter_out env pic j), SlotStore j]"
  obtain s1 where p: "vlc_vidsplit_Prepare env pic s = Inr s1"
    and lg1: "log s1 = log s @ [PictureHold pic, MutexLock, SplitterFilter pic, MutexUnlock]
                @ concat (map ?pe [0..<?n])"
    and io: "i_output s1 = i_output s"
    and len: "length (parts s1) = length (parts s)" "length (pictures s1) = length (pictures s)"
    and pa: "\<forall>j. parts s1 ! j = (if j < ?n then (parts s ! j)\<lparr>lock := lock (parts s ! j) - 1\<rparr>
                                  else parts s ! j)"
    and pi: "\<forall>j<?n. pictures s1 ! j =
                   display_Prepare env (display (parts s ! j)) (filter_out env pic j)"
    using Prepare_success_run[OF assms] by blast
  have "\<exists>s2. vlc_vidsplit_Display s1 = Inr s2
           \<and> log s2 = log s1 @ concat (map (display_events s1) [0..<nat (i_output s1)])"
    using Display_run[of s1] assms(1,2) io len by auto
  then obtain s2 where d: "vlc_vidsplit_Display s1 = Inr s2"
    and lg2: "log s2 = log s1 @ concat (map (display_events s1) [0..<?n])"
    using io by auto
  have n1: "new_events s s1 = [PictureHold pic, MutexLock, SplitterFilter pic, MutexUnlock]
                @ concat (map ?pe [0..<?n])"
    using lg1 by (rule new_events_append)
  have n2: "new_events s1 s2 = concat (map (display_events s1) [0..<?n])"
    using lg2 by (rule new_events_append)
  have disp: "\<And>j. display (parts s1 ! j) = display (parts s ! j)"
    using pa by simp
  have a1: "prepares (new_events s s1) = bound_displays s"
    unfolding n1 prepares_def bound_displays_def
    by (simp add: concat_map_concat prepare_call_def split: option.split cong: map_cong)
  have a2: "presents (new_events s s1) = []"
    unfolding n1 presents_def by (simp add: concat_map_concat present_call_def)
  have a3: "waits (new_events s s1) = [0..<?n]"
    unfolding n1 waits_def by (simp add: concat_map_concat wait_call_def concat_map_single comp_def)
  have a4: "posts (new_events s s1) = []"
    unfolding n1 posts_def by (simp add: concat_map_concat post_call_def)
  have b1: "prepares (new_events s1 s2) = []"
    unfolding n2 prepares_def by (simp add: concat_map_concat comp_def display_events_proj)
  have b3: "waits (new_events s1 s2) = []"
    unfolding n2 waits_def by (simp add: concat_map_concat comp_def display_events_proj)
  have b4: "posts (new_events s1 s2) = [0..<?n]"
    unfolding n2 posts_def
    by (simp add: concat_map_concat comp_def display_events_proj concat_map_single)
  have "map (\<lambda>j. concat (map present_call (display_events s1 j))) [0..<?n]
      = map (\<lambda>j. filter (\<lambda>(i, d). display_Prepare env (Some d) (filter_out env pic i) \<noteq> None)
                   (case display (parts s ! j) of None \<Rightarrow> [] | Some d \<Rightarrow> [(j, d)])) [0..<?n]"
    using pi disp
    by (intro map_cong) (auto simp: present_call_def display_events_def split: option.split)
  then have "concat (map (\<lambda>j. concat (map present_call (display_events s1 j))) [0..<?n])
      = concat (map (\<lambda>j. filter (\<lambda>(i, d). display_Prepare env (Some d) (filter_out env pic i) \<noteq> None)
                   (case display (parts s ! j) of None \<Rightarrow> [] | Some d \<Rightarrow> [(j, d)])) [0..<?n])"
    by (rule arg_cong)
  then have b2: "presents (new_events s1 s2) =
               filter (\<lambda>(i, d). display_Prepare env (Some d) (filter_out env pic i) \<noteq> None)
                 (bound_displays s)"
    unfolding n2 presents_def bound_displays_def
    by (simp add: concat_map_concat filter_concat comp_def)
  show ?thesis using p d a1 a2 a3 a4 b1 b2 b3 b4 by blast
qed

theorem successful_cycle_calls_witness:
  "\<exists>s1 s2. vlc_vidsplit_Prepare demo_env 5 demo_sys = Inr s1 \<and> vlc_vidsplit_Display s1 = Inr s2
           \<and> prepares (new_events demo_sys s1) = [(0, 3), (1, 4)]
           \<and> presents (new_events demo_sys s1) = []
           \<and> waits (new_events demo_sys s1) = [0, 1]
           \<and> posts (new_events demo_sys s1) = []
           \<and> prepares (new_events s1 s2) = []
           \<and> presents (new_events s1 s2) = [(0, 3), (1, 4)]
           \<and> waits (new_events s1 s2) = []
           \<and> posts (new_events s1 s2) = [0, 1]"
proof -
  have two: "[0..<2] = [0, Suc 0]" by (simp add: upt_rec)
  have h1: "nat (i_output demo_sys) \<le> length (parts demo_sys)"
    and h2: "nat (i_output demo_sys) \<le> length (pictures demo_sys)"
    and h3: "\<not> sys_lock demo_sys"
    and h5: "filter_rc demo_env 5 = 0"
    by (simp_all add: demo_sys_def demo_env_def)
  have h4: "\<forall>j<nat (i_output demo_sys). 0 < lock (parts demo_sys ! j)"
    by (simp add: demo_sys_def less_Suc_eq numeral_2_eq_2)
  have n: "nat (i_output demo_sys) = 2" by (simp add: demo_sys_def)
  have b: "bound_displays demo_sys = [(0, 3), (1, 4)]"
    by (simp add: bound_displays_def demo_sys_def two)
  show ?thesis
    using successful_cycle_calls [OF h1 h2 h3 h4 h5] by (simp add: n b two demo_env_def)
qed

text \<open>
  A display does not get a \<open>vout_display_Display\<close> call in every such cycle. With
  displays whose \<open>vout_display_Prepare\<close> returns no picture, the filter succeeds, both
  parts have a display and get their prepare call, and neither gets a display call.
\<close>

theorem present_needs_picture_counterexample:
  "filter_rc demo_env_drop 5 = 0
   \<and> bound_displays demo_sys = [(0, 3), (1, 4)]
   \<and> render_cycle demo_env_drop 5 demo_sys =
       Inr (demo_sys\<lparr>log := [PictureHold 5, MutexLock, SplitterFilter 5, MutexUnlock,
                              SemWait 0, SlotLoad 0, DisplayPrepare 0 (Some 3) (Some 50), SlotStore 0,
                              SemWait 1, SlotLoad 1, DisplayPrepare 1 (Some 4) (Some 51), SlotStore 1,
                              SlotLoad 0, SemPost 0, SlotLoad 1, SemPost 1]\<rparr>)
   \<and> presents (events_of (render_cycle demo_env_drop 5 demo_sys)) = []"
proof -
  have two: "[0..<2] = [0, Suc 0]" by (simp add: upt_rec)
  have r: "render_cycle demo_env_drop 5 demo_sys =
       Inr (demo_sys\<lparr>log := [PictureHold 5, MutexLock, SplitterFilter 5, MutexUnlock,
                              SemWait 0, SlotLoad 0, DisplayPrepare 0 (Some 3) (Some 50), SlotStore 0,
                              SemWait 1, SlotLoad 1, DisplayPrepare 1 (Some 4) (Some 51), SlotStore 1,
                              SlotLoad 0, SemPost 0, SlotLoad 1, SemPost 1]\<rparr>)"
    by (simp add: render_cycle_def vlc_vidsplit_Prepare_def vlc_vidsplit_Display_def
                demo_env_drop_def demo_env_def demo_sys_def two
                vlc_mutex_lock_def vlc_mutex_unlock_def video_splitter_Filter_def
                prepare_loop.simps prepare_part_def display_loop.simps display_part_def
                store_slot_def load_slot_def vlc_sem_wait_def vlc_sem_post_def emit_def)
  have b: "bound_displays demo_sys = [(0, 3), (1, 4)]"
    by (simp add: bound_displays_def demo_sys_def two)
  show ?thesis
    unfolding r by (simp add: b events_of_def presents_def present_call_def demo_env_drop_def demo_env_def)
qed

text \<open>
  C2. After the close callback has cleared the display of part 0, a cycle whose filter
  succeeds still calls \<open>vout_display_Prepare\<close> for part 0, with a null display:
  \<open>vlc_vidsplit_Prepare\<close> does not test \<open>part->display\<close>, unlike the resize callback
  before \<open>vout_display_SetSize\<close> and the close paths before \<open>vout_display_Delete\<close>.
\<close>

theorem closed_part_is_prepared:
  "and_then (vlc_vidsplit_window_Closed 0 demo_sys) (vlc_vidsplit_Prepare demo_env 5) =
     Inr (demo_sys\<lparr>pictures := [Some 50, Some 51],
                    parts := [\<lparr>window = Some 7, display = None, lock = 0, width = 1, height = 1\<rparr>,
                              \<lparr>window = Some 8, display = Some 4, lock = 0, width = 1, height = 1\<rparr>],
                    log := [SemWait 0, SemPost 0, DisplayDelete 3,
                            PictureHold 5, MutexLock, SplitterFilter 5, MutexUnlock,
                            SemWait 0, SlotLoad 0, DisplayPrepare 0 None (Some 50), SlotStore 0,
                            SemWait 1, SlotLoad 1, DisplayPrepare 1 (Some 4) (Some 51), SlotStore 1]\<rparr>)"
proof -
  have two: "[0..<2] = [0, Suc 0]" by (simp add: upt_rec)
  show ?thesis
    by (simp add: and_then_def vlc_vidsplit_window_Closed_def vlc_vidsplit_Prepare_def
                demo_env_def demo_sys_def two
                vlc_mutex_lock_def vlc_mutex_unlock_def video_splitter_Filter_def
                prepare_loop.simps prepare_part_def
                store_slot_def load_slot_def vlc_sem_wait_def vlc_sem_post_def emit_def)
qed

subsection \<open>Which accesses happen under the mutex\<close>

text \<open>
  C3. In the two render calls and the four window callbacks, every call into the splitter
  engine (\<open>video_splitter_Filter\<close>, \<open>video_splitter_Mouse\<close>) happens while \<open>sys->lock\<close> is
  held.
\<close>

theorem engine_calls_under_mutex:
  assumes "run env op s = Inr s'"
  shows "guarded engine_call (sys_lock s) (new_events s s')"
proof (cases op)
  case (Prepare pic)
  with assms show ?thesis by (simp add: Prepare_guarded)
next
  case Display
  with assms have "adds_quiet s s'"
    by (simp add: vlc_vidsplit_Display_def display_loop_quiet)
  then show ?thesis by (auto simp: adds_quiet_iff new_events_def guarded_quiet)
next
  case (Resized i w h cb)
  with assms show ?thesis
    by (auto simp: vlc_vidsplit_window_Resized_def vlc_sem_wait_def vlc_sem_post_def emit_def
                   new_events_def engine_call_def Let_def
             split: if_splits option.splits)
next
  case (Closed i)
  with assms show ?thesis
    by (auto simp: vlc_vidsplit_window_Closed_def vlc_sem_wait_def vlc_sem_post_def emit_def
                   new_events_def engine_call_def
             split: if_splits option.splits)
next
  case (MouseEvent i e)
  with assms show ?thesis
    by (auto simp: vlc_vidsplit_window_MouseEvent_def vlc_mutex_lock_def vlc_mutex_unlock_def
                   emit_def new_events_def engine_call_def Let_def
             split: if_splits prod.splits sum.splits)
next
  case (KeyboardEvent key)
  with assms show ?thesis
    by (auto simp: vlc_vidsplit_window_KeyboardEvent_def vlc_mutex_lock_def vlc_mutex_unlock_def
                   emit_def new_events_def engine_call_def
             split: if_splits)
qed

theorem engine_calls_under_mutex_witness:
  "run demo_env (MouseEvent 1 \<lparr>ev_type = 0, ev_x = 150, ev_y = 20\<rparr>) demo_sys =
     Inr (demo_sys\<lparr>log := [MutexLock, SplitterMouse 1 \<lparr>ev_type = 0, ev_x = 150, ev_y = 20\<rparr>,
                            WindowSendMouseEvent \<lparr>ev_type = 0, ev_x = 50, ev_y = 20\<rparr>,
                            MutexUnlock]\<rparr>)
   \<and> guarded engine_call (sys_lock demo_sys)
        (new_events demo_sys
           (demo_sys\<lparr>log := [MutexLock, SplitterMouse 1 \<lparr>ev_type = 0, ev_x = 150, ev_y = 20\<rparr>,
                              WindowSendMouseEvent \<lparr>ev_type = 0, ev_x = 50, ev_y = 20\<rparr>,
                              MutexUnlock]\<rparr>))"
proof -
  have r: "run demo_env (MouseEvent 1 \<lparr>ev_type = 0, ev_x = 150, ev_y = 20\<rparr>) demo_sys =
     Inr (demo_sys\<lparr>log := [MutexLock, SplitterMouse 1 \<lparr>ev_type = 0, ev_x = 150, ev_y = 20\<rparr>,
                            WindowSendMouseEvent \<lparr>ev_type = 0, ev_x = 50, ev_y = 20\<rparr>,
                            MutexUnlock]\<rparr>)"
    by (simp add: vlc_vidsplit_window_MouseEvent_def vlc_mutex_lock_def vlc_mutex_unlock_def
                  emit_def demo_env_def demo_sys_def VLC_SUCCESS_def)
  from engine_calls_under_mutex [OF r] r show ?thesis by simp
qed

text \<open>
  The same does not hold of the \<open>pictures\<close> array. With a failing filter, \<open>prepare\<close>
  unlocks the mutex and then clears the two slots.
\<close>

theorem slots_outside_mutex_counterexample:
  "run demo_env_fail (Prepare 5) demo_sys =
     Inr (demo_sys\<lparr>log := [PictureHold 5, MutexLock, SplitterFilter 5, MutexUnlock,
                            SlotStore 0, SlotStore 1]\<rparr>)
   \<and> \<not> guarded shared_access (sys_lock demo_sys)
        (new_events demo_sys
           (demo_sys\<lparr>log := [PictureHold 5, MutexLock, SplitterFilter 5, MutexUnlock,
                              SlotStore 0, SlotStore 1]\<rparr>))"
  by (simp add: vlc_vidsplit_Prepare_def demo_env_fail_def demo_env_def demo_sys_def
                vlc_mutex_lock_def vlc_mutex_unlock_def video_splitter_Filter_def
                clear_loop.simps store_slot_def emit_def new_events_def
                shared_access_def engine_call_def slot_access_def)

subsection \<open>Close callback, then teardown\<close>

text \<open>
  C6. On a coordinator whose semaphores are free, the close callback of part \<open>i\<close>
  followed by \<open>vlc_vidsplit_Close\<close> both return. The callback leaves the part without a
  display and deletes the display it took, if there was one. Teardown then deletes the
  displays of the other parts only, in index order: for part \<open>i\<close> it finds no display and
  deletes nothing. So a display that only part \<open>i\<close> held is deleted exactly once in the
  two operations together.
\<close>

theorem close_callback_then_teardown:
  assumes "i < nat (i_output s)" and "nat (i_output s) \<le> length (parts s)"
    and "\<forall>j<nat (i_output s). 0 < lock (parts s ! j)"
  shows "\<exists>s1 s2. vlc_vidsplit_window_Closed i s = Inr s1 \<and> vlc_vidsplit_Close s1 = Inr s2
           \<and> display (parts s1 ! i) = None
           \<and> deletes (new_events s s1) = (case display (parts s ! i) of None \<Rightarrow> [] | Some d \<Rightarrow> [d])
           \<and> deletes (new_events s1 s2) =
               concat (map (\<lambda>j. if j = i then []
                                 else (case display (parts s ! j) of None \<Rightarrow> [] | Some d \<Rightarrow> [d]))
                         [0..<nat (i_output s)])
           \<and> (\<forall>d. display (parts s ! i) = Some d
                    \<and> (\<forall>j<nat (i_output s). j \<noteq> i \<longrightarrow> display (parts s ! j) \<noteq> Some d)
                  \<longrightarrow> count_list (deletes (new_events s s1 @ new_events s1 s2)) d = 1)"
proof -
  let ?n = "nat (i_output s)"
  let ?s1 = "s\<lparr>parts := (parts s)[i := (parts s ! i)\<lparr>display := None\<rparr>],
               log := log s @ [SemWait i, SemPost i]
                        @ (case display (parts s ! i) of None \<Rightarrow> [] | Some d \<Rightarrow> [DisplayDelete d])\<rparr>"
  have bi: "i < length (parts s)" using assms(1,2) by linarith
  have li: "0 < lock (parts s ! i)" using assms(1,3) by simp
  have c: "vlc_vidsplit_window_Closed i s = Inr ?s1"
    using bi li
    by (cases "display (parts s ! i)")
       (simp_all add: vlc_vidsplit_window_Closed_def vlc_sem_wait_def vlc_sem_post_def emit_def)
  have "\<exists>s'. vlc_vidsplit_Close ?s1 = Inr s'
           \<and> log s' = log ?s1 @ concat (map (\<lambda>j. close_events (parts ?s1 ! j) j) [0..<nat (i_output ?s1)])
                       @ [ModuleUnneed, FormatClean, ObjectDelete]"
  proof -
    have h1: "nat (i_output ?s1) \<le> length (parts ?s1)" using assms(2) by simp
    have h2: "\<forall>j<nat (i_output ?s1). 0 < lock (parts ?s1 ! j)"
      using assms(3) bi by (auto simp: nth_list_update)
    from Close_run[OF h1 h2] show ?thesis by blast
  qed
  then obtain s2 where d: "vlc_vidsplit_Close ?s1 = Inr s2"
    and lg2: "log s2 = log ?s1 @ concat (map (\<lambda>j. close_events (parts ?s1 ! j) j) [0..<?n])
                       @ [ModuleUnneed, FormatClean, ObjectDelete]"
    by auto
  have n1: "new_events s ?s1 = [SemWait i, SemPost i]
                        @ (case display (parts s ! i) of None \<Rightarrow> [] | Some d \<Rightarrow> [DisplayDelete d])"
    by (rule new_events_append) simp
  have n2: "new_events ?s1 s2 = concat (map (\<lambda>j. close_events (parts ?s1 ! j) j) [0..<?n])
                       @ [ModuleUnneed, FormatClean, ObjectDelete]"
    using lg2 by (rule new_events_append)
  have a: "display (parts ?s1 ! i) = None" using bi by simp
  have b: "deletes (new_events s ?s1) = (case display (parts s ! i) of None \<Rightarrow> [] | Some d \<Rightarrow> [d])"
    unfolding n1 deletes_def by (cases "display (parts s ! i)") (simp_all add: delete_call_def)
  have "map (\<lambda>j. case display (parts ?s1 ! j) of None \<Rightarrow> [] | Some d \<Rightarrow> [d]) [0..<?n]
      = map (\<lambda>j. if j = i then []
                  else (case display (parts s ! j) of None \<Rightarrow> [] | Some d \<Rightarrow> [d])) [0..<?n]"
    using bi by (intro map_cong) (auto simp: nth_list_update)
  then have "concat (map (\<lambda>j. case display (parts ?s1 ! j) of None \<Rightarrow> [] | Some d \<Rightarrow> [d]) [0..<?n])
      = concat (map (\<lambda>j. if j = i then []
                  else (case display (parts s ! j) of None \<Rightarrow> [] | Some d \<Rightarrow> [d])) [0..<?n])"
    by (rule arg_cong)
  then have e: "deletes (new_events ?s1 s2) =
               concat (map (\<lambda>j. if j = i then []
                                 else (case display (parts s ! j) of None \<Rightarrow> [] | Some d \<Rightarrow> [d]))
                         [0..<?n])"
    unfolding n2 deletes_def
    by (simp add: concat_map_concat comp_def close_events_deletes delete_call_def)
  have f: "\<forall>d. display (parts s ! i) = Some d
                    \<and> (\<forall>j<?n. j \<noteq> i \<longrightarrow> display (parts s ! j) \<noteq> Some d)
                  \<longrightarrow> count_list (deletes (new_events s ?s1 @ new_events ?s1 s2)) d = 1"
  proof (intro allI impI)
    fix d
    assume h: "display (parts s ! i) = Some d
                 \<and> (\<forall>j<?n. j \<noteq> i \<longrightarrow> display (parts s ! j) \<noteq> Some d)"
    have "d \<notin> set (deletes (new_events ?s1 s2))"
      unfolding e using h by (auto split: if_splits option.splits)
    then have "count_list (deletes (new_events ?s1 s2)) d = 0"
      by (simp add: count_list_0_iff)
    moreover have "deletes (new_events s ?s1) = [d]" using b h by simp
    moreover have "deletes (new_events s ?s1 @ new_events ?s1 s2)
                   = deletes (new_events s ?s1) @ deletes (new_events ?s1 s2)"
      by (simp add: deletes_def)
    ultimately show "count_list (deletes (new_events s ?s1 @ new_events ?s1 s2)) d = 1"
      by simp
  qed
  show ?thesis using c d a b e f by blast
qed

theorem close_callback_then_teardown_witness:
  "\<exists>s1 s2. vlc_vidsplit_window_Closed 0 demo_sys = Inr s1 \<and> vlc_vidsplit_Close s1 = Inr s2
           \<and> display (parts s1 ! 0) = None
           \<and> deletes (new_events demo_sys s1) = [3]
           \<and> deletes (new_events s1 s2) = [4]
           \<and> count_list (deletes (new_events demo_sys s1 @ new_events s1 s2)) 3 = 1"
proof -
  have two: "[0..<2] = [0, Suc 0]" by (simp add: upt_rec)
  have h1: "0 < nat (i_output demo_sys)"
    and h2: "nat (i_output demo_sys) \<le> length (parts demo_sys)"
    by (simp_all add: demo_sys_def)
  have h3: "\<forall>j<nat (i_output demo_sys). 0 < lock (parts demo_sys ! j)"
    by (simp add: demo_sys_def less_Suc_eq numeral_2_eq_2)
  have n: "nat (i_output demo_sys) = 2" by (simp add: demo_sys_def)
  have p0: "display (parts demo_sys ! 0) = Some 3" and p1: "display (parts demo_sys ! Suc 0) = Some 4"
    by (simp_all add: demo_sys_def)
  have u: "\<forall>j<2. j \<noteq> 0 \<longrightarrow> display (parts demo_sys ! j) \<noteq> Some 3"
    by (simp add: demo_sys_def less_Suc_eq numeral_2_eq_2)
  from close_callback_then_teardown [OF h1 h2 h3] obtain s1 s2 where
    "vlc_vidsplit_window_Closed 0 demo_sys = Inr s1" "vlc_vidsplit_Close s1 = Inr s2"
    "display (parts s1 ! 0) = None"
    "deletes (new_events demo_sys s1) = [3]"
    "deletes (new_events s1 s2) = [4]"
    "\<forall>d. display (parts demo_sys ! 0) = Some d
           \<and> (\<forall>j<2. j \<noteq> 0 \<longrightarrow> display (parts demo_sys ! j) \<noteq> Some d)
          \<longrightarrow> count_list (deletes (new_events demo_sys s1 @ new_events s1 s2)) d = 1"
    unfolding n two by (auto simp: p0 p1)
  then show ?thesis using p0 u by blast
qed

subsection \<open>Construction and its rollback\<close>

text \<open>
  C4. When \<open>vlc_vidsplit_Open\<close> has passed its checks and allocations, parts \<open>0..k-1\<close> can be
  built and part \<open>k\<close> cannot (its window cannot be created or enabled, or its display cannot be
  created), Open returns \<open>VLC_EGENERIC\<close> without installing the operations, with
  \<open>i_output = k\<close>. Its log is: the rounds of parts \<open>0..k\<close>, then the teardown rounds of
  parts \<open>0..k-1\<close> and nothing beyond, then the release of the splitter. Every window that
  was created is deleted as often as it was created, and the displays deleted are the
  displays created, in the same order.
\<close>

theorem Open_failure_rolls_back:
  assumes "\<not> cfg_IsWindowed oe" and "var_InheritString oe = Some name" and "object_create oe"
    and "module_need oe name = Some n" and "pictures_malloc oe" and "parts_malloc oe"
    and "k < nat n" and "\<forall>j<k. part_ok oe j" and "\<not> part_ok oe k"
  shows "\<exists>r s'. vlc_vidsplit_Open oe fmtp0 = Inr r \<and> rc r = VLC_EGENERIC oe \<and> \<not> ops r
           \<and> sys r = Some s' \<and> i_output s' = int k
           \<and> log s' = [ModuleNeed ORIENT_NORMAL] @ concat (map (round_events oe) [0..<Suc k])
                       @ concat (map (\<lambda>j. close_events (part_built oe j) j) [0..<k])
                       @ [ModuleUnneed, FormatClean, ObjectDelete]
           \<and> mset (windows_deleted (log s')) = mset (windows_created (log s'))
           \<and> deletes (log s') = displays_created (log s')"
proof -
  let ?s = "open_start oe n"
  have h1: "k < nat (i_output ?s)" and h2: "nat (i_output ?s) \<le> length (parts ?s)"
    and h4: "\<forall>j. 0 \<le> j \<and> j < k \<longrightarrow> part_ok oe j"
    and h6: "\<forall>j<0. parts ?s ! j = part_built oe j"
    using assms(7,8) by (simp_all add: open_start_def)
  from open_loop_fail_at[OF h1 h2 _ h4 assms(9) h6] obtain s' where
    run: "open_loop oe 0 ?s = Inr (Inl (VLC_EGENERIC oe, s'))"
    and lg: "log s' = log ?s @ concat (map (round_events oe) [0..<k]) @ round_events oe k
                       @ concat (map (\<lambda>j. close_events (part_built oe j) j) [0..<k])
                       @ [ModuleUnneed, FormatClean, ObjectDelete]"
    and io: "i_output s' = int k"
    by auto
  let ?r = "\<lparr>rc = VLC_EGENERIC oe, ops = False, fmtp = ORIENT_NORMAL, sys = Some s'\<rparr>"
  have o: "vlc_vidsplit_Open oe fmtp0 = Inr ?r"
    using Open_unfold[OF assms(1-6)] run by simp
  have lg': "log s' = [ModuleNeed ORIENT_NORMAL] @ concat (map (round_events oe) [0..<Suc k])
                       @ concat (map (\<lambda>j. close_events (part_built oe j) j) [0..<k])
                       @ [ModuleUnneed, FormatClean, ObjectDelete]"
    using lg by (simp add: open_start_def)
  let ?W = "\<lambda>j. case window_New oe j of None \<Rightarrow> [] | Some h \<Rightarrow> [h]"
  let ?D = "\<lambda>j. case display (part_built oe j) of None \<Rightarrow> [] | Some d \<Rightarrow> [d]"
  have c1: "concat (map (\<lambda>x. concat (map window_created (round_events oe x))) [0..<k])
              = concat (map ?W [0..<k])"
    using assms(8) by (intro concat_map_cong) (simp add: round_events_ok)
  have c2: "concat (map (\<lambda>x. concat (map window_deleted (round_events oe x))) [0..<k]) = []"
    using assms(8) concat_map_cong[of "[0..<k]"
        "\<lambda>x. concat (map window_deleted (round_events oe x))" "\<lambda>x. []"]
    by (simp add: round_events_ok concat_map_nil)
  have c3: "concat (map (\<lambda>x. concat (map display_created (round_events oe x))) [0..<k])
              = concat (map ?D [0..<k])"
    using assms(8) by (intro concat_map_cong) (simp add: round_events_ok)
  have c4: "concat (map (\<lambda>x. concat (map delete_call (round_events oe x))) [0..<k]) = []"
    using assms(8) concat_map_cong[of "[0..<k]"
        "\<lambda>x. concat (map delete_call (round_events oe x))" "\<lambda>x. []"]
    by (simp add: round_events_ok concat_map_nil)
  have wc: "windows_created (log s') = concat (map ?W [0..<k]) @ ?W k"
    unfolding lg' windows_created_def
    by (simp add: concat_map_concat comp_def window_created_def round_events_fail[OF assms(9)]
                  close_events_built concat_map_nil c1)
  have wd: "windows_deleted (log s') = ?W k @ concat (map ?W [0..<k])"
    unfolding lg' windows_deleted_def
    by (simp add: concat_map_concat comp_def window_deleted_def round_events_fail[OF assms(9)]
                  close_events_built concat_map_nil c2)
  have dc: "displays_created (log s') = concat (map ?D [0..<k])"
    unfolding lg' displays_created_def
    by (simp add: concat_map_concat comp_def display_created_def round_events_fail[OF assms(9)]
                  close_events_built concat_map_nil c3)
  have dd: "deletes (log s') = concat (map ?D [0..<k])"
    unfolding lg' deletes_def
    by (simp add: concat_map_concat comp_def delete_call_def round_events_fail[OF assms(9)]
                  close_events_deletes concat_map_nil c4)
  have m: "mset (windows_deleted (log s')) = mset (windows_created (log s'))"
    unfolding wc wd by (simp add: ac_simps)
  show ?thesis using o io lg' m dc dd by simp
qed

theorem Open_failure_rolls_back_witness:
  "\<exists>r s'. vlc_vidsplit_Open demo_open (ORIENT_OTHER 1) = Inr r \<and> rc r = - 1 \<and> \<not> ops r
     \<and> sys r = Some s' \<and> i_output s' = 2
     \<and> log s' = [ModuleNeed ORIENT_NORMAL,
                  WindowNew 0 (Some 100), WindowEnable 100 0, SemWait 0,
                  DisplayNew 0 (Some 100) 1 1 (Some 200), SemPost 0,
                  WindowNew 1 (Some 101), WindowEnable 101 0, SemWait 1,
                  DisplayNew 1 (Some 101) 1 1 (Some 201), SemPost 1,
                  WindowNew 2 (Some 102), WindowEnable 102 0, SemWait 2,
                  DisplayNew 2 (Some 102) 1 1 None, SemPost 2,
                  WindowDisable (Some 102), WindowDelete (Some 102),
                  SemWait 0, SemPost 0, DisplayDelete 200,
                  WindowDisable (Some 100), WindowDelete (Some 100),
                  SemWait 1, SemPost 1, DisplayDelete 201,
                  WindowDisable (Some 101), WindowDelete (Some 101),
                  ModuleUnneed, FormatClean, ObjectDelete]
     \<and> mset (windows_deleted (log s')) = mset (windows_created (log s'))
     \<and> deletes (log s') = displays_created (log s')"
proof -
  have h: "\<not> cfg_IsWindowed demo_open" "var_InheritString demo_open = Some ''wall''"
    "object_create demo_open" "module_need demo_open ''wall'' = Some 3"
    "pictures_malloc demo_open" "parts_malloc demo_open" "2 < nat 3"
    by (simp_all add: demo_open_def)
  have ok: "\<forall>j<2. part_ok demo_open j"
    by (simp add: part_ok_def demo_open_def less_Suc_eq numeral_2_eq_2)
  have bad: "\<not> part_ok demo_open 2"
    by (simp add: part_ok_def demo_open_def)
  have three: "[0..<Suc 2] = [0, 1, 2]" and two: "[0..<2] = [0, 1]"
    by (simp_all add: upt_rec)
  from Open_failure_rolls_back [OF h ok bad, of "ORIENT_OTHER 1"] show ?thesis
    unfolding three two
    by (simp add: round_events_def close_events_def part_built_def demo_open_def)
qed

text \<open>
  C9. With error codes different from zero, \<open>vlc_vidsplit_Open\<close> always returns, and it sets
  \<open>vd->ops\<close> exactly in the environments where nothing stops it: the display is not
  windowed, the variable is set, the object, the module and the arrays are there and
  every part can be built. Then it returns \<open>VLC_SUCCESS\<close> with as many parts as the module
  reports, each built with its window and its display. In every other environment (a
  windowed display, a missing variable, a failed allocation, a missing module, a part that
  cannot be built) \<open>vd->ops\<close> stays unset and Open returns \<open>VLC_EGENERIC\<close> or \<open>VLC_ENOMEM\<close>,
  hence not zero.
\<close>

theorem Open_installs_ops_only_on_success:
  assumes "VLC_EGENERIC oe \<noteq> 0" and "VLC_ENOMEM oe \<noteq> 0"
  shows "\<exists>r. vlc_vidsplit_Open oe fmtp0 = Inr r
           \<and> ops r = open_succeeds oe
           \<and> (if ops r
               then rc r = VLC_SUCCESS
                    \<and> (\<exists>name s. var_InheritString oe = Some name \<and> sys r = Some s
                           \<and> module_need oe name = Some (i_output s)
                           \<and> length (parts s) = nat (i_output s)
                           \<and> (\<forall>j<nat (i_output s). parts s ! j = part_built oe j
                                                     \<and> window (parts s ! j) \<noteq> None
                                                     \<and> display (parts s ! j) \<noteq> None))
               else rc r \<noteq> 0 \<and> (rc r = VLC_EGENERIC oe \<or> rc r = VLC_ENOMEM oe))"
proof (cases "\<not> cfg_IsWindowed oe \<and> var_InheritString oe \<noteq> None \<and> object_create oe")
  case False
  then have "cfg_IsWindowed oe \<or> var_InheritString oe = None \<or> \<not> object_create oe" by blast
  from Open_before_checks[OF this, of fmtp0] assms show ?thesis by auto
next
  case True
  then obtain name where n: "\<not> cfg_IsWindowed oe" "var_InheritString oe = Some name"
      "object_create oe"
    by auto
  from Open_past_checks[OF n, of fmtp0] obtain r s where
    o: "vlc_vidsplit_Open oe fmtp0 = Inr r" and s: "sys r = Some s"
    and e: "ops r = open_succeeds oe"
    and c: "if ops r
               then rc r = VLC_SUCCESS \<and> fmt s = ORIENT_NORMAL
                    \<and> module_need oe name = Some (i_output s)
                    \<and> length (parts s) = nat (i_output s)
                    \<and> (\<forall>j<nat (i_output s). parts s ! j = part_built oe j
                                              \<and> window (parts s ! j) \<noteq> None
                                              \<and> display (parts s ! j) \<noteq> None)
               else rc r = VLC_EGENERIC oe \<or> rc r = VLC_ENOMEM oe"
    by blast
  show ?thesis
  proof (cases "ops r")
    case True
    with c s n(2) have "\<exists>name s. var_InheritString oe = Some name \<and> sys r = Some s
                           \<and> module_need oe name = Some (i_output s)
                           \<and> length (parts s) = nat (i_output s)
                           \<and> (\<forall>j<nat (i_output s). parts s ! j = part_built oe j
                                                     \<and> window (parts s ! j) \<noteq> None
                                                     \<and> display (parts s ! j) \<noteq> None)"
      by auto
    with True c o e show ?thesis by (simp add: VLC_SUCCESS_def)
  next
    case False
    with c assms have "rc r \<noteq> 0 \<and> (rc r = VLC_EGENERIC oe \<or> rc r = VLC_ENOMEM oe)" by auto
    with False o e show ?thesis by simp
  qed
qed

theorem Open_installs_ops_only_on_success_witness:
  "\<exists>r. vlc_vidsplit_Open demo_open_ok (ORIENT_OTHER 1) = Inr r
           \<and> ops r \<and> rc r = VLC_SUCCESS
           \<and> (\<exists>s. sys r = Some s \<and> i_output s = 3 \<and> length (parts s) = 3
                  \<and> (\<forall>j<3. parts s ! j = part_built demo_open_ok j
                               \<and> window (parts s ! j) \<noteq> None
                               \<and> display (parts s ! j) \<noteq> None))"
proof -
  have h: "VLC_EGENERIC demo_open_ok \<noteq> 0" "VLC_ENOMEM demo_open_ok \<noteq> 0"
    by (simp_all add: demo_open_ok_def demo_open_def)
  have three: "[0..<3] = [0, 1, 2]" by (simp add: upt_rec)
  have ok: "open_succeeds demo_open_ok"
    by (simp add: open_succeeds_def demo_open_ok_def demo_open_def part_ok_def three)
  have v: "var_InheritString demo_open_ok = Some ''wall''"
    and m: "module_need demo_open_ok ''wall'' = Some 3"
    by (simp_all add: demo_open_ok_def demo_open_def)
  from Open_installs_ops_only_on_success [OF h, of "ORIENT_OTHER 1"] obtain r where
    o: "vlc_vidsplit_Open demo_open_ok (ORIENT_OTHER 1) = Inr r"
    and e: "ops r = open_succeeds demo_open_ok"
    and c: "if ops r
               then rc r = VLC_SUCCESS
                    \<and> (\<exists>name s. var_InheritString demo_open_ok = Some name \<and> sys r = Some s
                           \<and> module_need demo_open_ok name = Some (i_output s)
                           \<and> length (parts s) = nat (i_output s)
                           \<and> (\<forall>j<nat (i_output s). parts s ! j = part_built demo_open_ok j
                                                     \<and> window (parts s ! j) \<noteq> None
                                                     \<and> display (parts s ! j) \<noteq> None))
               else rc r \<noteq> 0 \<and> (rc r = VLC_EGENERIC demo_open_ok \<or> rc r = VLC_ENOMEM demo_open_ok)"
    by blast
  have p: "ops r" using e ok by simp
  then have pt: "ops r = True" by simp
  from c have c1: "rc r = VLC_SUCCESS"
    and "\<exists>name s. var_InheritString demo_open_ok = Some name \<and> sys r = Some s
                           \<and> module_need demo_open_ok name = Some (i_output s)
                           \<and> length (parts s) = nat (i_output s)
                           \<and> (\<forall>j<nat (i_output s). parts s ! j = part_built demo_open_ok j
                                                     \<and> window (parts s ! j) \<noteq> None
                                                     \<and> display (parts s ! j) \<noteq> None)"
    unfolding pt if_True by blast+
  then obtain name s where n: "var_InheritString demo_open_ok = Some name"
    and q1: "sys r = Some s"
    and mm: "module_need demo_open_ok name = Some (i_output s)"
    and ln: "length (parts s) = nat (i_output s)"
    and al: "\<forall>j<nat (i_output s). parts s ! j = part_built demo_open_ok j
                                                     \<and> window (parts s ! j) \<noteq> None
                                                     \<and> display (parts s ! j) \<noteq> None"
    by blast
  have nm: "name = ''wall''" using n v by simp
  have q2: "i_output s = 3" using mm m nm by simp
  have n3: "nat (i_output s) = 3" using q2 by simp
  have q3: "length (parts s) = 3" using ln n3 by simp
  have q4: "\<forall>j<3. parts s ! j = part_built demo_open_ok j
                               \<and> window (parts s ! j) \<noteq> None
                               \<and> display (parts s ! j) \<noteq> None"
    using al unfolding n3 .
  from o p c1 q1 q2 q3 q4 show ?thesis by blast
qed

text \<open>
  C10. \<open>vlc_vidsplit_Open\<close> always returns. When it is past its three first checks (the
  display is not windowed, the \<open>video-splitter\<close> variable is set, the object is allocated),
  \<open>*fmtp\<close> holds \<open>ORIENT_NORMAL\<close> on return, the splitter module was asked for with
  \<open>ORIENT_NORMAL\<close> in \<open>splitter->fmt\<close>, and the coordinator that a successful Open leaves
  holds \<open>ORIENT_NORMAL\<close> there, whatever the orientation of the source and whether or not
  the rest of Open succeeds. When one of the three checks fails, Open returns with \<open>*fmtp\<close>
  as it came, without a coordinator and without the operations.
\<close>

theorem Open_forces_orientation:
  "\<exists>r. vlc_vidsplit_Open oe fmtp0 = Inr r
       \<and> (if \<not> cfg_IsWindowed oe \<and> var_InheritString oe \<noteq> None \<and> object_create oe
           then fmtp r = ORIENT_NORMAL
                \<and> (\<exists>s. sys r = Some s \<and> take 1 (log s) = [ModuleNeed ORIENT_NORMAL]
                       \<and> (if ops r then fmt s = ORIENT_NORMAL else True))
           else fmtp r = fmtp0 \<and> sys r = None \<and> \<not> ops r)"
proof (cases "\<not> cfg_IsWindowed oe \<and> var_InheritString oe \<noteq> None \<and> object_create oe")
  case False
  then have "cfg_IsWindowed oe \<or> var_InheritString oe = None \<or> \<not> object_create oe" by blast
  from Open_before_checks[OF this, of fmtp0] False show ?thesis by auto
next
  case True
  then obtain name where n: "\<not> cfg_IsWindowed oe" "var_InheritString oe = Some name"
      "object_create oe"
    by auto
  from Open_past_checks[OF n, of fmtp0] obtain r s where
    "vlc_vidsplit_Open oe fmtp0 = Inr r" "fmtp r = ORIENT_NORMAL" "sys r = Some s"
    "take 1 (log s) = [ModuleNeed ORIENT_NORMAL]" "ops r \<longrightarrow> fmt s = ORIENT_NORMAL"
    by (auto split: if_splits)
  with True show ?thesis by auto
qed

theorem Open_forces_orientation_witness:
  "\<exists>r. vlc_vidsplit_Open demo_open (ORIENT_OTHER 1) = Inr r
       \<and> fmtp r = ORIENT_NORMAL
       \<and> (\<exists>s. sys r = Some s \<and> take 1 (log s) = [ModuleNeed ORIENT_NORMAL]
              \<and> (if ops r then fmt s = ORIENT_NORMAL else True))"
proof -
  have h: "\<not> cfg_IsWindowed demo_open \<and> var_InheritString demo_open \<noteq> None
             \<and> object_create demo_open"
    by (simp add: demo_open_def)
  from Open_forces_orientation [of demo_open "ORIENT_OTHER 1"] h show ?thesis by auto
qed

text \<open>
  The orientation is not forced in every call. On a windowed display Open returns at its
  first check and \<open>*fmtp\<close> keeps the orientation it came with.
\<close>

theorem Open_windowed_keeps_orientation_counterexample:
  "vlc_vidsplit_Open (demo_open\<lparr>cfg_IsWindowed := True\<rparr>) (ORIENT_OTHER 1) =
     Inr \<lparr>rc = - 1, ops = False, fmtp = ORIENT_OTHER 1, sys = None\<rparr>"
  by (simp add: vlc_vidsplit_Open_def demo_open_def)

end
